theory Spec2Isabelle
  imports Complex_Main
begin

section \<open>JavaScript strings\<close>

text \<open>
  A JavaScript string is modelled as a \<^typ>\<open>string\<close>, one \<^typ>\<open>char\<close> per UTF-16 code unit
  below 256. The functions below are the string methods and the regular expressions the
  three page scripts use.
\<close>

definition dq :: char where
  "dq = CHR 0x22"

definition backslash :: char where
  "backslash = CHR 0x5C"

text \<open>White space as \<open>String.prototype.trim\<close> and the regular expression class \<open>\s\<close>
  see it, among the code units below 256: TAB, LF, VT, FF, CR, SPACE and NBSP.\<close>

definition isWhiteSpace :: "char \<Rightarrow> bool" where
  "isWhiteSpace c = (c \<in> set [CHR 0x09, CHR 0x0A, CHR 0x0B, CHR 0x0C, CHR 0x0D, CHR 0x20, CHR 0xA0])"

definition isDigit :: "char \<Rightarrow> bool" where
  "isDigit c = (c \<in> set ''0123456789'')"

definition trim :: "string \<Rightarrow> string" where
  "trim s = dropWhile isWhiteSpace (rev (dropWhile isWhiteSpace (rev s)))"

text \<open>\<open>toLowerCase\<close>, on the ASCII letters (tag names of HTML elements are ASCII).\<close>

definition lowerChar :: "char \<Rightarrow> char" where
  "lowerChar c =
     (case map_of (zip ''ABCDEFGHIJKLMNOPQRSTUVWXYZ'' ''abcdefghijklmnopqrstuvwxyz'') c of
        Some d \<Rightarrow> d
      | None \<Rightarrow> c)"

definition toLowerCase :: "string \<Rightarrow> string" where
  "toLowerCase s = map lowerChar s"

fun startsWith :: "string \<Rightarrow> string \<Rightarrow> bool" where
  "startsWith s [] = True"
| "startsWith [] (p # ps) = False"
| "startsWith (c # cs) (p # ps) = (c = p \<and> startsWith cs ps)"

fun stringIncludes :: "string \<Rightarrow> string \<Rightarrow> bool" where
  "stringIncludes [] sub = (sub = [])"
| "stringIncludes (c # cs) sub = (startsWith (c # cs) sub \<or> stringIncludes cs sub)"

text \<open>\<open>s.substring(0, n)\<close> is \<^term>\<open>take n s\<close>; \<open>s.repeat(n)\<close>:\<close>

definition repeat :: "string \<Rightarrow> nat \<Rightarrow> string" where
  "repeat s n = concat (replicate n s)"

text \<open>\<open>name.replace(/\s+/g, " ")\<close>: every maximal run of white space becomes one space.
  The flag says whether the previous code unit was white space.\<close>

fun collapseRuns :: "bool \<Rightarrow> string \<Rightarrow> string" where
  "collapseRuns inRun [] = []"
| "collapseRuns inRun (c # cs) =
     (if isWhiteSpace c
      then (if inRun then collapseRuns True cs else CHR 0x20 # collapseRuns True cs)
      else c # collapseRuns False cs)"

definition collapseWhiteSpace :: "string \<Rightarrow> string" where
  "collapseWhiteSpace s = collapseRuns False s"

text \<open>\<open>name.replace(/"/g, '\\"')\<close>: a backslash before every double quote.\<close>

definition escapeQuotes :: "string \<Rightarrow> string" where
  "escapeQuotes s = concat (map (\<lambda>c. if c = dq then [backslash, dq] else [c]) s)"

text \<open>\<open>src.split("/").pop()\<close> is the part after the last slash, and \<open>.split("?")[0]\<close> the
  part before the first question mark.\<close>

definition afterLast :: "char \<Rightarrow> string \<Rightarrow> string" where
  "afterLast c s = rev (takeWhile (\<lambda>x. x \<noteq> c) (rev s))"

definition beforeFirst :: "char \<Rightarrow> string \<Rightarrow> string" where
  "beforeFirst c s = takeWhile (\<lambda>x. x \<noteq> c) s"

fun join :: "string \<Rightarrow> string list \<Rightarrow> string" where
  "join sep [] = []"
| "join sep [x] = x"
| "join sep (x # y # ys) = x @ sep @ join sep (y # ys)"

text \<open>The decimal rendering of a counter value, as \<open>"ref_" + n\<close> produces it.\<close>

definition digitChar :: "nat \<Rightarrow> char" where
  "digitChar d = ''0123456789'' ! d"

fun numberToString :: "nat \<Rightarrow> string" where
  "numberToString n =
     (if n < 10 then [digitChar n] else numberToString (n div 10) @ [digitChar (n mod 10)])"

declare numberToString.simps [simp del]

text \<open>\<open>tag.match(/^h[1-6]$/)\<close>\<close>

definition isHeadingTag :: "string \<Rightarrow> bool" where
  "isHeadingTag tag = (tag \<in> set [''h1'', ''h2'', ''h3'', ''h4'', ''h5'', ''h6''])"

text \<open>The post-filter's test \<open>/^\s*- generic \[ref=ref_\d+\]$/\<close>: leading white space, the
  literal text, one digit or more, the closing bracket, and nothing after it.\<close>

definition isBareGeneric :: "string \<Rightarrow> bool" where
  "isBareGeneric l =
     (let rest = dropWhile isWhiteSpace l;
          lit = ''- generic [ref=ref_''
      in startsWith rest lit \<and>
         (let after = drop (length lit) rest;
              ds = takeWhile isDigit after
          in ds \<noteq> [] \<and> dropWhile isDigit after = '']''))"

section \<open>The page: elements, the document and the reference registry\<close>

text \<open>
  Elements belong to the page. An element is known by its identity (a natural number;
  \<open>===\<close> on elements is equality of identities, and an identity is never given to a second
  element), and \<open>element_obj\<close> holds what the DOM reports for it: the properties and
  method results the scripts read, and the ones \<open>form_input\<close> writes.
\<close>

datatype js_error = JsError (errorMessage: string)

datatype html_interface =
  HTMLSelectElement | HTMLInputElement | HTMLTextAreaElement | OtherElement

text \<open>What \<open>document.querySelector('label[for="' + id + '"]')\<close> does for an element's id:
  it throws when the id breaks the selector, returns null, or returns a label, of which
  the script reads \<open>textContent\<close>.\<close>

datatype label_query = SelectorThrows js_error | NoLabel | LabelFound string

record select_option =
  optionValue :: string
  optionText :: string
  optionTextContent :: string
  selectedAttr :: bool

record element_obj =
  tagName :: string
  attrs :: "(string \<times> string) list"
  interface :: html_interface
  typeProp :: string
  directText :: string
  textContent :: string
  labelQuery :: label_query
  valueProp :: string
  checked :: bool
  disabled :: bool
  selectOptions :: "select_option list"
  selectedIndex :: int
  computedDisplay :: string
  computedVisibility :: string
  computedOpacity :: string
  offsetWidth :: int
  offsetHeight :: int
  rectLeft :: real
  rectTop :: real
  rectRight :: real
  rectBottom :: real
  styleDisplay :: string
  styleVisibility :: string

text \<open>\<open>element.getAttribute(name)\<close>; \<open>element.id\<close>, \<open>element.className\<close> and
  \<open>element.name\<close> reflect the attributes \<open>id\<close>, \<open>class\<close> and \<open>name\<close>, the empty string
  when absent. (An element outside the HTML namespace has no \<open>offsetWidth\<close>; its
  \<open>undefined > 0\<close> is false, as \<open>0 > 0\<close> is.)\<close>

definition getAttribute :: "element_obj \<Rightarrow> string \<Rightarrow> string option" where
  "getAttribute el name = map_of (attrs el) name"

definition reflected :: "element_obj \<Rightarrow> string \<Rightarrow> string" where
  "reflected el name = (case getAttribute el name of Some v \<Rightarrow> v | None \<Rightarrow> [])"

definition elementId :: "element_obj \<Rightarrow> string" where
  "elementId el = reflected el ''id''"

definition className :: "element_obj \<Rightarrow> string" where
  "className el = reflected el ''class''"

text \<open>
  The element tree below \<open>document.body\<close>, by identity: \<open>Node e kids named\<close> is the
  element \<open>e\<close> with its child elements \<open>kids\<close>. The third field is what the property
  \<open>element.children\<close> evaluates to when it is not the collection of \<open>kids\<close>: a form that
  has a listed control whose \<open>name\<close> or \<open>id\<close> is \<open>children\<close> answers \<open>form.children\<close>
  with that control (with the list of them, if there are several), since the named
  properties of a form come before those of its prototype. \<open>Some items\<close> then holds the
  members \<open>element.children[0]\<close>, ..., \<open>element.children[length - 1]\<close> of that object: none
  for a control that has no \<open>length\<close> (an input, a button, a text area), the options of a
  select, the controls of a list. \<open>None\<close> is the ordinary case.
\<close>

datatype dom = Node nat "dom list" "dom list option"

text \<open>\<open>element.children\<close>, as the loop of lines 416 to 423 indexes it.\<close>

fun children :: "dom \<Rightarrow> dom list" where
  "children (Node e kids None) = kids"
| "children (Node e kids (Some items)) = items"

text \<open>An event handed to \<open>dispatchEvent\<close>: its type, its target and its \<open>bubbles\<close> flag.\<close>

record dispatched =
  eventType :: string
  eventTarget :: nat
  bubbles :: bool

text \<open>
  The page state. \<open>claudeElementMap\<close> is \<open>window.__claudeElementMap\<close>: its keys in insertion
  order (the order \<open>for ... in\<close> follows), each with the element its \<open>WeakRef\<close> was made
  for. \<open>claudeRefCounter\<close> is \<open>window.__claudeRefCounter\<close>, a count far below \<open>2^53\<close>.
  (A page on which the snapshot script has not run yet has neither; the two lookup scripts
  test for the registry first and find nothing, as they do in an empty one.)
  \<open>collected\<close> are the elements the garbage collector has reclaimed, \<open>inDocument\<close> the
  elements \<open>document.contains\<close> holds of. \<open>focusCalls\<close>, \<open>scrollCalls\<close> and \<open>dispatches\<close> log
  the calls of \<open>focus\<close>, \<open>scrollIntoView\<close> and \<open>dispatchEvent\<close>, and \<open>caretCalls\<close> those of
  \<open>setSelectionRange\<close>. \<open>sanitized\<close> is the browser's value sanitization on assignment to
  \<open>element.value\<close>, \<open>canonicalNumber\<close> the engine's \<open>String(Number(s))\<close> of a numeric
  literal \<open>s\<close>, and \<open>scrollLayout e\<close> what the elements report once the browser has scrolled
  \<open>e\<close> into view at once and laid the page out again. \<open>listeners name e\<close> is what the
  page's own handlers do to the elements while the call runs that fires the event \<open>name\<close>
  at \<open>e\<close>: the handlers of \<open>e\<close> and, as the event bubbles, of its ancestors; for
  \<open>focus()\<close> the blur and focus handlers. They run before the call returns, so the script
  reads the elements as the handlers left them. (Handlers are page code: they do not
  write to the registry, and what else they do to the document is a change of the page
  that no script reads before it returns.)
\<close>

record page =
  claudeElementMap :: "(string \<times> nat) list"
  claudeRefCounter :: nat
  objects :: "nat \<Rightarrow> element_obj"
  body :: "dom option"
  inDocument :: "nat set"
  collected :: "nat set"
  innerWidth :: real
  innerHeight :: real
  focusCalls :: "nat list"
  scrollCalls :: "(nat \<times> string) list"
  caretCalls :: "(nat \<times> nat) list"
  dispatches :: "dispatched list"
  sanitized :: "element_obj \<Rightarrow> string \<Rightarrow> string"
  canonicalNumber :: "string \<Rightarrow> string"
  scrollLayout :: "nat \<Rightarrow> (nat \<Rightarrow> element_obj) \<Rightarrow> (nat \<Rightarrow> element_obj)"
  listeners :: "string \<Rightarrow> nat \<Rightarrow> (nat \<Rightarrow> element_obj) \<Rightarrow> (nat \<Rightarrow> element_obj)"

text \<open>\<open>weakRef.deref()\<close>: the element, or nothing once it has been collected.\<close>

definition deref :: "page \<Rightarrow> nat \<Rightarrow> nat option" where
  "deref s t = (if t \<in> collected s then None else Some t)"

section \<open>The snapshot script\<close>

subsection \<open>Role and accessible name\<close>

text \<open>\<open>roleMap[tag] || "generic"\<close>. The table is an object literal, so a tag named
  \<open>constructor\<close> or \<open>__proto__\<close> finds the inherited property of that name, whose value
  is truthy and is rendered by the string concatenation that builds the line.\<close>

definition inputRole :: "string option \<Rightarrow> string" where
  "inputRole type =
     (if type = Some ''submit'' \<or> type = Some ''button'' then ''button''
      else if type = Some ''checkbox'' then ''checkbox''
      else if type = Some ''radio'' then ''radio''
      else if type = Some ''file'' then ''button''
      else ''textbox'')"

definition roleMap :: "string option \<Rightarrow> (string \<times> string) list" where
  "roleMap type =
     [(''a'', ''link''), (''button'', ''button''), (''input'', inputRole type),
      (''select'', ''combobox''), (''textarea'', ''textbox''),
      (''h1'', ''heading''), (''h2'', ''heading''), (''h3'', ''heading''),
      (''h4'', ''heading''), (''h5'', ''heading''), (''h6'', ''heading''),
      (''img'', ''image''), (''nav'', ''navigation''), (''main'', ''main''),
      (''header'', ''banner''), (''footer'', ''contentinfo''), (''section'', ''region''),
      (''article'', ''article''), (''aside'', ''complementary''), (''form'', ''form''),
      (''table'', ''table''), (''ul'', ''list''), (''ol'', ''list''), (''li'', ''listitem''),
      (''label'', ''label'')]"

definition inheritedRole :: "string \<Rightarrow> string option" where
  "inheritedRole tag =
     (if tag = ''constructor'' then Some ''function Object() { [native code] }''
      else if tag = ''__proto__'' then Some ''[object Object]''
      else None)"

definition getRole :: "element_obj \<Rightarrow> string" where
  "getRole el =
     (let role = getAttribute el ''role'' in
      if role \<noteq> None \<and> role \<noteq> Some [] then the role
      else
        let tag = toLowerCase (tagName el);
            type = getAttribute el ''type''
        in case map_of (roleMap type) tag of
             Some r \<Rightarrow> r
           | None \<Rightarrow> (case inheritedRole tag of Some r \<Rightarrow> r | None \<Rightarrow> ''generic''))"

text \<open>\<open>a && a.trim()\<close> for an attribute value \<open>a\<close>.\<close>

definition nonBlank :: "string option \<Rightarrow> bool" where
  "nonBlank a = (case a of None \<Rightarrow> False | Some v \<Rightarrow> v \<noteq> [] \<and> trim v \<noteq> [])"

text \<open>\<open>querySelector("option[selected]") || options[selectedIndex]\<close>\<close>

definition selectedOption :: "element_obj \<Rightarrow> select_option option" where
  "selectedOption el =
     (case find selectedAttr (selectOptions el) of
        Some opt \<Rightarrow> Some opt
      | None \<Rightarrow>
          if 0 \<le> selectedIndex el \<and> nat (selectedIndex el) < length (selectOptions el)
          then Some (selectOptions el ! nat (selectedIndex el))
          else None)"

text \<open>The name rules that follow the label lookup (lines 122 to 193): input values,
  direct text of clickable elements, heading text, image file name, direct text.\<close>

definition inputName :: "element_obj \<Rightarrow> string option" where
  "inputName el =
     (let type = (case getAttribute el ''type'' of Some t \<Rightarrow> t | None \<Rightarrow> []);
          val = getAttribute el ''value''
      in if type = ''submit'' \<and> nonBlank val then Some (trim (the val))
         else if valueProp el \<noteq> [] \<and> length (valueProp el) < 50 \<and> trim (valueProp el) \<noteq> []
         then Some (trim (valueProp el))
         else None)"

definition genericName :: "element_obj \<Rightarrow> string" where
  "genericName el =
     (let directTextContent = directText el in
      if directTextContent \<noteq> [] \<and> trim directTextContent \<noteq> []
         \<and> length (trim directTextContent) \<ge> 3
      then (let trimmedText = trim directTextContent in
            if length trimmedText > 50 then take 50 trimmedText @ ''...'' else trimmedText)
      else [])"

definition nameAfterLabel :: "element_obj \<Rightarrow> string" where
  "nameAfterLabel el =
     (let tag = toLowerCase (tagName el) in
      if tag = ''input'' \<and> inputName el \<noteq> None then the (inputName el)
      else if tag \<in> set [''button'', ''a'', ''summary''] \<and> trim (directText el) \<noteq> []
      then trim (directText el)
      else if isHeadingTag tag \<and> textContent el \<noteq> [] \<and> trim (textContent el) \<noteq> []
      then take 100 (trim (textContent el))
      else if tag = ''img'' \<and> getAttribute el ''src'' \<noteq> None \<and> getAttribute el ''src'' \<noteq> Some []
      then ''Image: '' @ beforeFirst (CHR ''?'') (afterLast (CHR ''/'') (the (getAttribute el ''src'')))
      else genericName el)"

definition getCleanName :: "element_obj \<Rightarrow> js_error + string" where
  "getCleanName el =
     (let tag = toLowerCase (tagName el);
          selected = (if tag = ''select'' then selectedOption el else None)
      in if selected \<noteq> None \<and> optionTextContent (the selected) \<noteq> []
         then Inr (trim (optionTextContent (the selected)))
         else if nonBlank (getAttribute el ''aria-label'') then Inr (trim (the (getAttribute el ''aria-label'')))
         else if nonBlank (getAttribute el ''placeholder'') then Inr (trim (the (getAttribute el ''placeholder'')))
         else if nonBlank (getAttribute el ''title'') then Inr (trim (the (getAttribute el ''title'')))
         else if nonBlank (getAttribute el ''alt'') then Inr (trim (the (getAttribute el ''alt'')))
         else if elementId el \<noteq> []
         then (case labelQuery el of
                 SelectorThrows err \<Rightarrow> Inl err
               | NoLabel \<Rightarrow> Inr (nameAfterLabel el)
               | LabelFound txt \<Rightarrow>
                   if txt \<noteq> [] \<and> trim txt \<noteq> [] then Inr (trim txt) else Inr (nameAfterLabel el))
         else Inr (nameAfterLabel el))"

subsection \<open>The inclusion decision\<close>

definition isVisible :: "element_obj \<Rightarrow> bool" where
  "isVisible el =
     (computedDisplay el \<noteq> ''none'' \<and> computedVisibility el \<noteq> ''hidden''
      \<and> computedOpacity el \<noteq> ''0'' \<and> offsetWidth el > 0 \<and> offsetHeight el > 0)"

definition isInteractive :: "element_obj \<Rightarrow> bool" where
  "isInteractive el =
     (toLowerCase (tagName el)
        \<in> set [''a'', ''button'', ''input'', ''select'', ''textarea'', ''details'', ''summary'']
      \<or> getAttribute el ''onclick'' \<noteq> None
      \<or> getAttribute el ''tabindex'' \<noteq> None
      \<or> getAttribute el ''role'' = Some ''button''
      \<or> getAttribute el ''role'' = Some ''link''
      \<or> getAttribute el ''contenteditable'' = Some ''true'')"

definition isSemantic :: "element_obj \<Rightarrow> bool" where
  "isSemantic el =
     (toLowerCase (tagName el)
        \<in> set [''h1'', ''h2'', ''h3'', ''h4'', ''h5'', ''h6'', ''nav'', ''main'', ''header'',
               ''footer'', ''section'', ''article'', ''aside'']
      \<or> getAttribute el ''role'' \<noteq> None)"

definition isContainerElement :: "element_obj \<Rightarrow> bool" where
  "isContainerElement el =
     (let role = getAttribute el ''role'';
          tag = toLowerCase (tagName el);
          cls = className el;
          ident = elementId el
      in role = Some ''search'' \<or> role = Some ''form'' \<or> role = Some ''group''
         \<or> role = Some ''toolbar'' \<or> role = Some ''navigation''
         \<or> tag = ''form'' \<or> tag = ''fieldset'' \<or> tag = ''nav''
         \<or> stringIncludes ident ''search'' \<or> stringIncludes cls ''search''
         \<or> stringIncludes ident ''form'' \<or> stringIncludes cls ''form''
         \<or> stringIncludes ident ''menu'' \<or> stringIncludes cls ''menu''
         \<or> stringIncludes ident ''nav'' \<or> stringIncludes cls ''nav'')"

definition functionalKeywords :: "string list" where
  "functionalKeywords =
     [''search'', ''dropdown'', ''menu'', ''modal'', ''dialog'', ''popup'', ''toolbar'',
      ''sidebar'', ''content'', ''text'']"

definition inViewport :: "page \<Rightarrow> element_obj \<Rightarrow> bool" where
  "inViewport s el =
     (rectTop el < innerHeight s \<and> rectBottom el > 0 \<and> rectLeft el < innerWidth s \<and> rectRight el > 0)"

text \<open>The default policy of \<open>shouldIncludeElement\<close>, from line 280 on, once the element is
  known not to be interactive or semantic and its name has been read.\<close>

definition includeByContent :: "element_obj \<Rightarrow> string \<Rightarrow> js_error + bool" where
  "includeByContent el name =
     (if length name > 0 then Inr True
      else
        let tag = toLowerCase (tagName el); role = getRole el in
        if role = ''generic'' \<and> (tag = ''div'' \<or> tag = ''span'')
        then (case getCleanName el of
                Inl err \<Rightarrow> Inl err
              | Inr cleanName \<Rightarrow>
                  if cleanName \<noteq> [] \<and> length cleanName \<ge> 3 then Inr True
                  else if list_ex (\<lambda>keyword. stringIncludes (elementId el) keyword
                                       \<or> stringIncludes (className el) keyword) functionalKeywords
                  then Inr True
                  else Inr False)
        else if isContainerElement el then Inr True
        else Inr False)"

definition shouldIncludeElement :: "page \<Rightarrow> element_obj \<Rightarrow> string option \<Rightarrow> js_error + bool" where
  "shouldIncludeElement s el filt =
     (let tag = toLowerCase (tagName el) in
      if tag \<in> set [''script'', ''style'', ''meta'', ''link'', ''title'', ''noscript''] then Inr False
      else if getAttribute el ''aria-hidden'' = Some ''true'' then Inr False
      else if \<not> isVisible el then Inr False
      else if filt \<noteq> Some ''all'' \<and> \<not> inViewport s el then Inr False
      else if filt = Some ''interactive'' then Inr (isInteractive el)
      else if isInteractive el then Inr True
      else if isSemantic el then Inr True
      else (case getCleanName el of
              Inl err \<Rightarrow> Inl err
            | Inr name \<Rightarrow> includeByContent el name))"

subsection \<open>Reference allocation and the traversal\<close>

text \<open>Lines 375 to 383 of \<open>processElement\<close>: the \<open>for ... in\<close> loop stops at the first key
  whose handle resolves to the element.\<close>

definition existingRef :: "page \<Rightarrow> nat \<Rightarrow> string option" where
  "existingRef s e =
     map_option fst (find (\<lambda>(r, t). deref s t = Some e) (claudeElementMap s))"

text \<open>\<open>map[ref] = new WeakRef(element)\<close>: a new key goes last, an existing key keeps its
  place; \<open>delete map[ref]\<close> removes the key.\<close>

definition assignKey :: "(string \<times> nat) list \<Rightarrow> string \<Rightarrow> nat \<Rightarrow> (string \<times> nat) list" where
  "assignKey m r e =
     (if map_of m r = None then m @ [(r, e)]
      else map (\<lambda>(k, t). if k = r then (k, e) else (k, t)) m)"

definition deleteKey :: "(string \<times> nat) list \<Rightarrow> string \<Rightarrow> (string \<times> nat) list" where
  "deleteKey m r = filter (\<lambda>(k, t). k \<noteq> r) m"

text \<open>Lines 373 to 389: reuse the reference found, or mint \<open>"ref_" + ++counter\<close>.
  (\<open>!ref\<close> also holds of an empty key.)\<close>

definition allocateOrReuse :: "page \<Rightarrow> nat \<Rightarrow> string \<times> page" where
  "allocateOrReuse s e =
     (let found = existingRef s e in
      if found \<noteq> None \<and> found \<noteq> Some [] then (the found, s)
      else
        let n = claudeRefCounter s + 1;
            r = ''ref_'' @ numberToString n
        in (r, s\<lparr>claudeRefCounter := n,
                  claudeElementMap := assignKey (claudeElementMap s) r e\<rparr>))"

text \<open>Lines 391 to 410: the line of an included element.\<close>

definition annotation :: "string \<Rightarrow> string \<Rightarrow> string" where
  "annotation key v = (if v \<noteq> [] then '' '' @ key @ ''='' @ [dq] @ v @ [dq] else [])"

definition yamlLine :: "nat \<Rightarrow> element_obj \<Rightarrow> string \<Rightarrow> string \<Rightarrow> string \<Rightarrow> string" where
  "yamlLine depth el role name r =
     repeat ''  '' depth @ ''- '' @ role
     @ (if name \<noteq> []
        then '' '' @ [dq] @ escapeQuotes (take 100 (collapseWhiteSpace name)) @ [dq]
        else [])
     @ '' [ref='' @ r @ '']''
     @ annotation ''id'' (elementId el)
     @ annotation ''href'' (reflected el ''href'')
     @ annotation ''type'' (reflected el ''type'')
     @ annotation ''placeholder'' (reflected el ''placeholder'')"

text \<open>What the traversal pushes on \<open>result\<close>: the line, kept together with the element it
  was built for, the reference in it and the name read for it.\<close>

record emitted =
  emNode :: nat
  emRef :: string
  emName :: string
  emLine :: string

text \<open>A run ends normally or by a thrown error; the state reached is kept in both cases,
  since what was written to the registry before a throw stays written.\<close>

datatype 'a outcome = Normal 'a | Thrown js_error 'a

type_synonym walk = "page \<times> emitted list"

text \<open>Lines 370 to 413: the body of \<open>if (actuallyInclude)\<close>.\<close>

definition includeElement :: "nat \<Rightarrow> nat \<Rightarrow> walk \<Rightarrow> walk outcome" where
  "includeElement depth e w =
     (case w of (s, res) \<Rightarrow>
        let el = objects s e; role = getRole el in
        case getCleanName el of
          Inl err \<Rightarrow> Thrown err (s, res)
        | Inr name \<Rightarrow>
            (case allocateOrReuse s e of (r, s') \<Rightarrow>
               Normal (s', res @ [\<lparr>emNode = e, emRef = r, emName = name,
                                   emLine = yamlLine depth el role name r\<rparr>])))"

text \<open>
  \<open>processElement\<close>, lines 345 to 427. After the element's own line the loop of lines
  416 to 423 (\<open>Always traverse children\<close>) runs over \<open>element.children\<close>, a property read:
  it visits the child elements unless the property is shadowed. The test
  \<open>element.children\<close> of line 415 holds in both cases.
\<close>

function processElement :: "string option \<Rightarrow> nat \<Rightarrow> dom \<Rightarrow> walk \<Rightarrow> walk outcome"
  and processChildren :: "string option \<Rightarrow> nat \<Rightarrow> dom list \<Rightarrow> walk \<Rightarrow> walk outcome" where
  "processElement filt depth (Node e kids named) w =
     (if depth > 15 then Normal w
      else if tagName (objects (fst w) e) = [] then Normal w
      else
        case shouldIncludeElement (fst w) (objects (fst w) e) filt of
          Inl err \<Rightarrow> Thrown err w
        | Inr shouldInclude \<Rightarrow>
            let actuallyInclude = (shouldInclude \<or> depth = 0) in
            (case (if actuallyInclude then includeElement depth e w else Normal w) of
               Thrown err w' \<Rightarrow> Thrown err w'
             | Normal w' \<Rightarrow>
                 if depth < 15
                 then processChildren filt (if actuallyInclude then depth + 1 else depth)
                        (children (Node e kids named)) w'
                 else Normal w'))"
| "processChildren filt depth [] w = Normal w"
| "processChildren filt depth (k # ks) w =
     (case processElement filt depth k w of
        Thrown err w' \<Rightarrow> Thrown err w'
      | Normal w' \<Rightarrow> processChildren filt depth ks w')"
  by pat_completeness auto

termination
proof (relation "measure (\<lambda>x. case x of
            Inl (filt, depth, t, w) \<Rightarrow> 2 * size t
          | Inr (filt, depth, ts, w) \<Rightarrow> 2 * size_list size ts + 1)", goal_cases)
  case (2 filt depth e kids named)
  then show ?case by (cases named) simp_all
qed simp_all

declare processElement.simps(1) [simp del]

subsection \<open>The snapshot pass\<close>

text \<open>Lines 435 to 441: the sweep deletes the keys whose handle no longer resolves.\<close>

definition cleanupStaleRefs :: "page \<Rightarrow> page" where
  "cleanupStaleRefs s =
     s\<lparr>claudeElementMap := filter (\<lambda>(r, t). deref s t \<noteq> None) (claudeElementMap s)\<rparr>"

record snapshot =
  pageContent :: string
  viewportWidth :: real
  viewportHeight :: real

text \<open>The traversal from \<open>document.body\<close>, when there is one.\<close>

definition traverseBody :: "string option \<Rightarrow> page \<Rightarrow> walk outcome" where
  "traverseBody filterType s =
     (case body s of
        None \<Rightarrow> Normal (s, [])
      | Some b \<Rightarrow> processElement filterType 0 b (s, []))"

text \<open>\<open>window.__generateAccessibilityTree(filterType)\<close>. An absent argument is \<open>None\<close>.
  The \<open>catch\<close> clause rethrows any error under one message.\<close>

definition wrapError :: "js_error \<Rightarrow> js_error" where
  "wrapError err =
     JsError (''Error generating accessibility tree: ''
              @ (if errorMessage err \<noteq> [] then errorMessage err else ''Unknown error''))"

definition generateAccessibilityTree :: "string option \<Rightarrow> page \<Rightarrow> (js_error + snapshot) \<times> page" where
  "generateAccessibilityTree filterType s =
     (case traverseBody filterType s of
        Thrown err (s', res) \<Rightarrow> (Inl (wrapError err), s')
      | Normal (s', res) \<Rightarrow>
          let s'' = cleanupStaleRefs s';
              filteredResult = filter (\<lambda>l. \<not> isBareGeneric l) (map emLine res)
          in (Inr \<lparr>pageContent = join [CHR 0x0A] filteredResult,
                    viewportWidth = innerWidth s'', viewportHeight = innerHeight s''\<rparr>, s''))"

text \<open>The script's first lines (27 to 33) create the registry and the counter when the
  page has none; a page that has them keeps them.\<close>

definition freshRegistry :: "page \<Rightarrow> bool" where
  "freshRegistry s = (claudeElementMap s = [] \<and> claudeRefCounter s = 0)"

definition installScript :: "page \<Rightarrow> page" where
  "installScript s = s\<lparr>claudeRefCounter := (if claudeRefCounter s = 0 then 0 else claudeRefCounter s)\<rparr>"

section \<open>Resolving a reference\<close>

text \<open>
  Both \<open>get_element\<close> (lines 13 to 24) and \<open>form_input\<close> (lines 6 to 17) start with the same
  statements. \<open>window.__claudeElementMap[elementRef]\<close> finds an own key, or a property every
  object inherits; an inherited one is truthy and has no \<open>deref\<close>, so the call throws a
  \<open>TypeError\<close> (the message is the one of the engine the demo runs, V8).
\<close>

datatype property = OwnHandle nat | InheritedProperty | NoProperty

definition objectPrototypeKeys :: "string list" where
  "objectPrototypeKeys =
     [''constructor'', ''__defineGetter__'', ''__defineSetter__'', ''hasOwnProperty'',
      ''__lookupGetter__'', ''__lookupSetter__'', ''isPrototypeOf'', ''propertyIsEnumerable'',
      ''toString'', ''valueOf'', ''__proto__'', ''toLocaleString'']"

definition lookupRef :: "(string \<times> nat) list \<Rightarrow> string \<Rightarrow> property" where
  "lookupRef m r =
     (case map_of m r of
        Some t \<Rightarrow> OwnHandle t
      | None \<Rightarrow> if r \<in> set objectPrototypeKeys then InheritedProperty else NoProperty)"

definition resolveElement :: "page \<Rightarrow> string \<Rightarrow> js_error + (nat option \<times> page)" where
  "resolveElement s elementRef =
     (case lookupRef (claudeElementMap s) elementRef of
        NoProperty \<Rightarrow> Inr (None, s)
      | InheritedProperty \<Rightarrow> Inl (JsError ''weakRef.deref is not a function'')
      | OwnHandle t \<Rightarrow>
          (let targetElement = deref s t in
           if targetElement = None \<or> the targetElement \<notin> inDocument s
           then Inr (None, s\<lparr>claudeElementMap := deleteKey (claudeElementMap s) elementRef\<rparr>)
           else Inr (targetElement, s)))"

text \<open>The object a script returns: \<open>{success: false, action, message}\<close>, or
  \<open>{success: true, ...}\<close> with its payload.\<close>

datatype 'a result = Failure (failedAction: string) (failureMessage: string) | Success 'a

definition notFoundMessage :: "string \<Rightarrow> string" where
  "notFoundMessage elementRef =
     ''No element found with reference: '' @ [dq] @ elementRef @ [dq]
     @ ''. The element may have been removed from the page.''"

definition messageOrUnknown :: "js_error \<Rightarrow> string" where
  "messageOrUnknown err = (if errorMessage err \<noteq> [] then errorMessage err else ''Unknown error'')"

section \<open>The element script\<close>

record element_info =
  coordinates :: "real \<times> real"
  elementInfo :: string
  elementRef :: string
  rect :: "real \<times> real \<times> real \<times> real \<times> real \<times> real"
  attrType :: string
  attrRole :: string
  attrAriaLabel :: string
  attrText :: string
  isVisibleFlag :: bool
  isInteractable :: bool

text \<open>\<open>className.split(' ').filter(c => c)\<close>: the non-empty pieces between spaces.\<close>

fun splitOn :: "char \<Rightarrow> string \<Rightarrow> string \<Rightarrow> string list" where
  "splitOn sep cur [] = [rev cur]"
| "splitOn sep cur (c # cs) = (if c = sep then rev cur # splitOn sep [] cs else splitOn sep (c # cur) cs)"

definition describeElement :: "element_obj \<Rightarrow> string" where
  "describeElement el =
     toLowerCase (tagName el)
     @ (if elementId el \<noteq> [] then ''#'' @ elementId el else [])
     @ (if className el \<noteq> []
        then ''.'' @ join ''.'' (filter (\<lambda>c. c \<noteq> []) (splitOn (CHR '' '') [] (className el)))
        else [])"

definition elementFound :: "string \<Rightarrow> element_obj \<Rightarrow> element_info" where
  "elementFound r el =
     (let width = rectRight el - rectLeft el; height = rectBottom el - rectTop el in
      \<lparr>coordinates = (rectLeft el + width / 2, rectTop el + height / 2),
       elementInfo = describeElement el,
       elementRef = r,
       rect = (rectLeft el, rectTop el, rectRight el, rectBottom el, width, height),
       attrType = reflected el ''type'',
       attrRole = reflected el ''role'',
       attrAriaLabel = reflected el ''aria-label'',
       attrText = (if textContent el \<noteq> [] then take 100 (textContent el) else []),
       isVisibleFlag = (width > 0 \<and> height > 0),
       isInteractable = (\<not> disabled el \<and> styleDisplay el \<noteq> ''none'' \<and> styleVisibility el \<noteq> ''hidden'')\<rparr>)"

definition get_element :: "page \<Rightarrow> string \<Rightarrow> element_info result \<times> page" where
  "get_element s r =
     (case resolveElement s r of
        Inl err \<Rightarrow>
          (Failure ''get_element'' (''Error finding element by reference: '' @ messageOrUnknown err), s)
      | Inr (None, s') \<Rightarrow> (Failure ''get_element'' (notFoundMessage r), s')
      | Inr (Some e, s') \<Rightarrow>
          (let s'' = s'\<lparr>scrollCalls := scrollCalls s' @ [(e, ''instant'')],
                         objects := scrollLayout s' e (objects s')\<rparr>
           in (Success (elementFound r (objects s'' e)), s'')))"

section \<open>The form input script\<close>

subsection \<open>Argument values\<close>

text \<open>
  The value the driver passes. A number is known by its rendering \<open>String(n)\<close>, or is
  \<open>NaN\<close>. \<open>String(v)\<close>, \<open>Number(v)\<close> and the grammar of numeric string literals follow
  the language definition; the rendering of a parsed literal is the engine's
  (\<open>canonicalNumber\<close>).
\<close>

datatype js_number = NaN | Num string

datatype js_value = JUndefined | JNull | JBool bool | JNumber js_number | JString string

definition toString :: "js_value \<Rightarrow> string" where
  "toString v =
     (case v of
        JUndefined \<Rightarrow> ''undefined''
      | JNull \<Rightarrow> ''null''
      | JBool b \<Rightarrow> (if b then ''true'' else ''false'')
      | JNumber NaN \<Rightarrow> ''NaN''
      | JNumber (Num r) \<Rightarrow> r
      | JString str \<Rightarrow> str)"

definition stripSign :: "string \<Rightarrow> string" where
  "stripSign str =
     (case str of [] \<Rightarrow> [] | c # r \<Rightarrow> if c = CHR ''+'' \<or> c = CHR ''-'' then r else str)"

definition isDecimalDigits :: "string \<Rightarrow> bool" where
  "isDecimalDigits str = (str \<noteq> [] \<and> list_all isDigit str)"

definition isExponentPart :: "string \<Rightarrow> bool" where
  "isExponentPart str =
     (case str of
        [] \<Rightarrow> False
      | c # r \<Rightarrow> (c = CHR ''e'' \<or> c = CHR ''E'') \<and> isDecimalDigits (stripSign r))"

definition isUnsignedDecimal :: "string \<Rightarrow> bool" where
  "isUnsignedDecimal str =
     (str = ''Infinity'' \<or>
      (let intPart = takeWhile isDigit str; r1 = dropWhile isDigit str in
       case r1 of
         [] \<Rightarrow> intPart \<noteq> []
       | c # r2 \<Rightarrow>
           if c = CHR ''.''
           then (let fracPart = takeWhile isDigit r2; r3 = dropWhile isDigit r2 in
                 (intPart \<noteq> [] \<or> fracPart \<noteq> []) \<and> (r3 = [] \<or> isExponentPart r3))
           else intPart \<noteq> [] \<and> isExponentPart r1))"

definition isNonDecimalInteger :: "string \<Rightarrow> bool" where
  "isNonDecimalInteger str =
     (case str of
        z # x # ds \<Rightarrow>
          z = CHR ''0'' \<and> ds \<noteq> [] \<and>
          (if x = CHR ''x'' \<or> x = CHR ''X''
           then list_all (\<lambda>c. c \<in> set ''0123456789abcdefABCDEF'') ds
           else if x = CHR ''o'' \<or> x = CHR ''O'' then list_all (\<lambda>c. c \<in> set ''01234567'') ds
           else if x = CHR ''b'' \<or> x = CHR ''B'' then list_all (\<lambda>c. c \<in> set ''01'') ds
           else False)
      | _ \<Rightarrow> False)"

definition isNumericLiteral :: "string \<Rightarrow> bool" where
  "isNumericLiteral str = (isUnsignedDecimal (stripSign str) \<or> isNonDecimalInteger str)"

definition toNumber :: "page \<Rightarrow> js_value \<Rightarrow> js_number" where
  "toNumber s v =
     (case v of
        JUndefined \<Rightarrow> NaN
      | JNull \<Rightarrow> Num ''0''
      | JBool b \<Rightarrow> (if b then Num ''1'' else Num ''0'')
      | JNumber n \<Rightarrow> n
      | JString str \<Rightarrow>
          (let t = trim str in
           if t = [] then Num ''0''
           else if isNumericLiteral t then Num (canonicalNumber s t)
           else NaN))"

definition isNaN :: "js_number \<Rightarrow> bool" where
  "isNaN n = (n = NaN)"

subsection \<open>Writing to a control\<close>

record form_success =
  ref :: string
  element_type :: string
  previous_value :: js_value
  new_value :: js_value
  message :: string

definition formFailure :: "string \<Rightarrow> form_success result" where
  "formFailure msg = Failure ''form_input'' msg"

text \<open>\<open>select.value\<close> is the value of the selected option, the empty string without one.\<close>

definition selectValue :: "element_obj \<Rightarrow> string" where
  "selectValue el =
     (if 0 \<le> selectedIndex el \<and> nat (selectedIndex el) < length (selectOptions el)
      then optionValue (selectOptions el ! nat (selectedIndex el))
      else [])"

definition updateElement :: "page \<Rightarrow> nat \<Rightarrow> (element_obj \<Rightarrow> element_obj) \<Rightarrow> page" where
  "updateElement s e f = s\<lparr>objects := (objects s)(e := f (objects s e))\<rparr>"

text \<open>\<open>element.value = v\<close>, through the browser's sanitization.\<close>

definition assignValue :: "page \<Rightarrow> nat \<Rightarrow> string \<Rightarrow> page" where
  "assignValue s e v = updateElement s e (\<lambda>el. el\<lparr>valueProp := sanitized s el v\<rparr>)"

text \<open>\<open>element.focus()\<close> and \<open>element.dispatchEvent(new Event(name, { bubbles: true }))\<close>:
  the call is logged and the page's handlers run, synchronously, on the elements.\<close>

definition focusElement :: "page \<Rightarrow> nat \<Rightarrow> page" where
  "focusElement s e =
     s\<lparr>focusCalls := focusCalls s @ [e],
       objects := listeners s ''focus'' e (objects s)\<rparr>"

definition dispatchEvent :: "page \<Rightarrow> nat \<Rightarrow> string \<Rightarrow> page" where
  "dispatchEvent s e name =
     s\<lparr>dispatches := dispatches s @ [\<lparr>eventType = name, eventTarget = e, bubbles = True\<rparr>],
       objects := listeners s name e (objects s)\<rparr>"

text \<open>The three statements every success path ends with: \<open>focus()\<close>, then a bubbling
  \<open>change\<close> event, then a bubbling \<open>input\<close> event.\<close>

definition focusAndNotify :: "page \<Rightarrow> nat \<Rightarrow> page" where
  "focusAndNotify s e = dispatchEvent (dispatchEvent (focusElement s e) e ''change'') e ''input''"

text \<open>The loop of lines 39 to 45: the index of the first option whose value or text is
  the string.\<close>

fun findOption :: "select_option list \<Rightarrow> string \<Rightarrow> nat \<Rightarrow> nat option" where
  "findOption [] valueStr i = None"
| "findOption (opt # opts) valueStr i =
     (if optionValue opt = valueStr \<or> optionText opt = valueStr then Some i
      else findOption opts valueStr (i + 1))"

definition describeOption :: "select_option \<Rightarrow> string" where
  "describeOption opt =
     [dq] @ optionText opt @ [dq] @ '' (value: '' @ [dq] @ optionValue opt @ [dq] @ '')''"

definition optionNotFoundMessage :: "string \<Rightarrow> select_option list \<Rightarrow> string" where
  "optionNotFoundMessage valueStr opts =
     ''Option '' @ [dq] @ valueStr @ [dq] @ '' not found. Available options: ''
     @ join '', '' (map describeOption opts)"

definition selectBranch :: "page \<Rightarrow> string \<Rightarrow> nat \<Rightarrow> js_value \<Rightarrow> form_success result \<times> page" where
  "selectBranch s r e inputValue =
     (let el = objects s e;
          previousValue = selectValue el;
          valueStr = toString inputValue
      in case findOption (selectOptions el) valueStr 0 of
           None \<Rightarrow> (formFailure (optionNotFoundMessage valueStr (selectOptions el)), s)
         | Some i \<Rightarrow>
             (let s' = focusAndNotify (updateElement s e (\<lambda>el. el\<lparr>selectedIndex := int i\<rparr>)) e in
              (Success \<lparr>ref = r, element_type = ''select'',
                        previous_value = JString previousValue,
                        new_value = JString (selectValue (objects s' e)),
                        message = ''Selected option '' @ [dq] @ valueStr @ [dq] @ '' in dropdown''\<rparr>, s')))"

definition checkboxBranch :: "page \<Rightarrow> string \<Rightarrow> nat \<Rightarrow> js_value \<Rightarrow> form_success result \<times> page" where
  "checkboxBranch s r e inputValue =
     (let previousValue = checked (objects s e) in
      case inputValue of
        JBool b \<Rightarrow>
          (let s' = focusAndNotify (updateElement s e (\<lambda>el. el\<lparr>checked := b\<rparr>)) e in
           (Success \<lparr>ref = r, element_type = ''checkbox'',
                     previous_value = JBool previousValue,
                     new_value = JBool (checked (objects s' e)),
                     message = ''Checkbox '' @ (if checked (objects s' e) then ''checked'' else ''unchecked'')\<rparr>,
            s'))
      | _ \<Rightarrow> (formFailure ''Checkbox requires a boolean value (true/false)'', s))"

text \<open>Checking a radio button also unchecks the other buttons of its group, which is the
  browser's doing; the model follows the element the script writes to.\<close>

definition radioBranch :: "page \<Rightarrow> string \<Rightarrow> nat \<Rightarrow> form_success result \<times> page" where
  "radioBranch s r e =
     (let previousValue = checked (objects s e);
          radioGroup = reflected (objects s e) ''name'';
          s' = focusAndNotify (updateElement s e (\<lambda>el. el\<lparr>checked := True\<rparr>)) e
      in (Success \<lparr>ref = r, element_type = ''radio'',
                   previous_value = JBool previousValue,
                   new_value = JBool (checked (objects s' e)),
                   message = ''Radio button selected''
                     @ (if radioGroup \<noteq> [] then '' in group '' @ [dq] @ radioGroup @ [dq] else [])\<rparr>,
          s'))"

definition dateBranch :: "page \<Rightarrow> string \<Rightarrow> nat \<Rightarrow> js_value \<Rightarrow> form_success result \<times> page" where
  "dateBranch s r e inputValue =
     (let previousValue = valueProp (objects s e);
          s' = focusAndNotify (assignValue s e (toString inputValue)) e;
          el' = objects s' e
      in (Success \<lparr>ref = r, element_type = typeProp el',
                   previous_value = JString previousValue,
                   new_value = JString (valueProp el'),
                   message = ''Set '' @ typeProp el' @ '' to '' @ [dq] @ valueProp el' @ [dq]\<rparr>,
          s'))"

definition rangeBranch :: "page \<Rightarrow> string \<Rightarrow> nat \<Rightarrow> js_value \<Rightarrow> form_success result \<times> page" where
  "rangeBranch s r e inputValue =
     (let previousValue = valueProp (objects s e);
          numValue = toNumber s inputValue
      in if isNaN numValue then (formFailure ''Range input requires a numeric value'', s)
         else
           (let s' = focusAndNotify (assignValue s e (toString (JNumber numValue))) e;
                el' = objects s' e
            in (Success \<lparr>ref = r, element_type = ''range'',
                         previous_value = JString previousValue,
                         new_value = JString (valueProp el'),
                         message = ''Set range to '' @ valueProp el' @ '' (min: '' @ reflected el' ''min''
                           @ '', max: '' @ reflected el' ''max'' @ '')''\<rparr>,
                s')))"

definition numberBranch :: "page \<Rightarrow> string \<Rightarrow> nat \<Rightarrow> js_value \<Rightarrow> form_success result \<times> page" where
  "numberBranch s r e inputValue =
     (let previousValue = valueProp (objects s e);
          numValue = toNumber s inputValue
      in if isNaN numValue \<and> inputValue \<noteq> JString []
         then (formFailure ''Number input requires a numeric value'', s)
         else
           (let s' = focusAndNotify (assignValue s e (toString inputValue)) e;
                el' = objects s' e
            in (Success \<lparr>ref = r, element_type = ''number'',
                         previous_value = JString previousValue,
                         new_value = JString (valueProp el'),
                         message = ''Set number input to '' @ valueProp el'\<rparr>,
                s')))"

text \<open>
  The last branch writes to any other input and to a text area. Two of its calls throw
  for some input types (HTML standard): assigning a non-empty string to the value of a
  file input, and \<open>setSelectionRange\<close> on an input whose type is not text, search, url,
  tel or password. The \<open>catch\<close> clause turns the error into a failure; what was written
  before the throw stays written.
\<close>

definition selectionApplies :: "element_obj \<Rightarrow> bool" where
  "selectionApplies el =
     (interface el = HTMLTextAreaElement
      \<or> typeProp el \<in> set [''text'', ''search'', ''url'', ''tel'', ''password''])"

definition caughtFailure :: "js_error \<Rightarrow> form_success result" where
  "caughtFailure err = formFailure (''Error setting form value: '' @ messageOrUnknown err)"

definition textBranch :: "page \<Rightarrow> string \<Rightarrow> nat \<Rightarrow> js_value \<Rightarrow> form_success result \<times> page" where
  "textBranch s r e inputValue =
     (let el = objects s e; previousValue = valueProp el in
      if interface el = HTMLInputElement \<and> typeProp el = ''file'' \<and> toString inputValue \<noteq> []
      then (caughtFailure (JsError (''Failed to set the 'value' property on 'HTMLInputElement': ''
              @ ''This input element accepts a filename, which may only be programmatically set ''
              @ ''to the empty string.'')), s)
      else
        (let s1 = focusElement (assignValue s e (toString inputValue)) e in
         if \<not> selectionApplies (objects s1 e)
         then (caughtFailure (JsError (''Failed to execute 'setSelectionRange' on 'HTMLInputElement': ''
                 @ ''The input element's type ('' @ [CHR 0x27] @ typeProp (objects s1 e) @ [CHR 0x27]
                 @ '') does not support selection.'')), s1)
         else
           (let n = length (valueProp (objects s1 e));
                s2 = s1\<lparr>caretCalls := caretCalls s1 @ [(e, n)]\<rparr>;
                s3 = dispatchEvent (dispatchEvent s2 e ''change'') e ''input'';
                el' = objects s3 e;
                elementType = (if interface el' = HTMLTextAreaElement then ''textarea''
                               else if typeProp el' \<noteq> [] then typeProp el' else ''text'')
            in (Success \<lparr>ref = r, element_type = elementType,
                         previous_value = JString previousValue,
                         new_value = JString (valueProp el'),
                         message = ''Set '' @ elementType @ '' value to '' @ [dq] @ valueProp el' @ [dq]\<rparr>,
                s3))))"

text \<open>The dispatch of lines 31 to 212, in the script's order.\<close>

definition dispatchOnControl :: "page \<Rightarrow> string \<Rightarrow> nat \<Rightarrow> js_value \<Rightarrow> form_success result \<times> page" where
  "dispatchOnControl s r e inputValue =
     (let el = objects s e in
      if interface el = HTMLSelectElement then selectBranch s r e inputValue
      else if interface el = HTMLInputElement \<and> typeProp el = ''checkbox''
      then checkboxBranch s r e inputValue
      else if interface el = HTMLInputElement \<and> typeProp el = ''radio'' then radioBranch s r e
      else if interface el = HTMLInputElement
              \<and> typeProp el \<in> set [''date'', ''time'', ''datetime-local'', ''month'', ''week'']
      then dateBranch s r e inputValue
      else if interface el = HTMLInputElement \<and> typeProp el = ''range'' then rangeBranch s r e inputValue
      else if interface el = HTMLInputElement \<and> typeProp el = ''number'' then numberBranch s r e inputValue
      else if interface el = HTMLInputElement \<or> interface el = HTMLTextAreaElement
      then textBranch s r e inputValue
      else (formFailure (''Element type '' @ [dq] @ tagName el @ [dq] @ '' is not a supported form input''), s))"

definition form_input :: "page \<Rightarrow> string \<Rightarrow> js_value \<Rightarrow> form_success result \<times> page" where
  "form_input s r inputValue =
     (case resolveElement s r of
        Inl err \<Rightarrow> (caughtFailure err, s)
      | Inr (None, s') \<Rightarrow> (formFailure (notFoundMessage r), s')
      | Inr (Some e, s') \<Rightarrow>
          dispatchOnControl (s'\<lparr>scrollCalls := scrollCalls s' @ [(e, ''smooth'')]\<rparr>) r e inputValue)"

section \<open>Passes, registry invariant and example pages\<close>

text \<open>The state a run ends in, normally or not.\<close>

fun outcomeState :: "'a outcome \<Rightarrow> 'a" where
  "outcomeState (Normal w) = w"
| "outcomeState (Thrown err w) = w"

text \<open>What one pass pushed on \<open>result\<close>, and what of it the post-filter keeps.\<close>

definition passEntries :: "string option \<Rightarrow> page \<Rightarrow> emitted list" where
  "passEntries filterType s =
     (case traverseBody filterType s of Normal (s', res) \<Rightarrow> res | Thrown err (s', res) \<Rightarrow> res)"

definition outputEntries :: "string option \<Rightarrow> page \<Rightarrow> emitted list" where
  "outputEntries filterType s = filter (\<lambda>x. \<not> isBareGeneric (emLine x)) (passEntries filterType s)"

text \<open>The registry of a page that only the three scripts write to: its keys are distinct
  and each is \<open>ref_k\<close> for a \<open>k\<close> from 1 to the counter.\<close>

definition mintedRefs :: "nat \<Rightarrow> string list" where
  "mintedRefs n = map (\<lambda>k. ''ref_'' @ numberToString k) [1..<Suc n]"

definition registryInv :: "page \<Rightarrow> bool" where
  "registryInv s =
     (distinct (map fst (claudeElementMap s))
      \<and> set (map fst (claudeElementMap s)) \<subseteq> set (mintedRefs (claudeRefCounter s)))"

text \<open>During a pass, every line pushed for a live element carries the reference the
  registry now resolves that element to.\<close>

definition entriesBound :: "walk \<Rightarrow> bool" where
  "entriesBound w =
     (registryInv (fst w) \<and>
      (\<forall>x\<in>set (snd w). emNode x \<notin> collected (fst w) \<longrightarrow>
          existingRef (fst w) (emNode x) = Some (emRef x)))"

text \<open>Two page states that differ at most in the registry show the same elements in the
  same viewport.\<close>

definition sameDom :: "page \<Rightarrow> page \<Rightarrow> bool" where
  "sameDom s s' = (objects s' = objects s \<and> innerWidth s' = innerWidth s \<and> innerHeight s' = innerHeight s)"

text \<open>An element whose \<open>children\<close> property is the collection of its child elements.\<close>

abbreviation Element :: "nat \<Rightarrow> dom list \<Rightarrow> dom" where
  "Element e kids \<equiv> Node e kids None"

text \<open>An element somewhere below a chain of such ancestors: each ancestor is given with
  the children before and after the one the chain goes through.\<close>

type_synonym wrapper = "nat \<times> dom list \<times> dom list"

fun nest :: "wrapper list \<Rightarrow> dom \<Rightarrow> dom" where
  "nest [] t = t"
| "nest ((w, before, after) # ws) t = Element w (before @ [nest ws t] @ after)"

text \<open>The depth at which the children of an element visited at depth \<open>d\<close> are visited, and
  the depth below a chain of ancestors; \<open>ancestorsVisited\<close> says that the traversal goes
  down the whole chain: every ancestor has a tag name and is visited at a depth below 15.\<close>

definition childDepth :: "page \<Rightarrow> string option \<Rightarrow> nat \<Rightarrow> nat \<Rightarrow> nat" where
  "childDepth s f d e =
     (if shouldIncludeElement s (objects s e) f = Inr True \<or> d = 0 then d + 1 else d)"

fun depthBelow :: "page \<Rightarrow> string option \<Rightarrow> nat \<Rightarrow> wrapper list \<Rightarrow> nat" where
  "depthBelow s f d [] = d"
| "depthBelow s f d (w # ws) = depthBelow s f (childDepth s f d (fst w)) ws"

fun ancestorsVisited :: "page \<Rightarrow> string option \<Rightarrow> nat \<Rightarrow> wrapper list \<Rightarrow> bool" where
  "ancestorsVisited s f d [] = True"
| "ancestorsVisited s f d (w # ws) =
     (d < 15 \<and> tagName (objects s (fst w)) \<noteq> [] \<and> ancestorsVisited s f (childDepth s f d (fst w)) ws)"

text \<open>
  A page session. Between two runs of the scripts the page and the collector do what they
  like with the elements, but they do not write to the registry, and what has been
  collected stays collected.
\<close>

inductive pageStep :: "page \<Rightarrow> page \<Rightarrow> bool" where
  install: "pageStep s (installScript s)"
| snapshot: "pageStep s (snd (generateAccessibilityTree filterType s))"
| locate: "pageStep s (snd (get_element s r))"
| setValue: "pageStep s (snd (form_input s r v))"
| pageChange:
    "claudeElementMap s' = claudeElementMap s \<Longrightarrow> claudeRefCounter s' = claudeRefCounter s
     \<Longrightarrow> collected s \<subseteq> collected s' \<Longrightarrow> pageStep s s'"

text \<open>From one state of a session to a later one the counter does not go down, and an
  entry of the later registry is an entry of the earlier one or has a key the earlier
  counter had not reached.\<close>

definition registryGrows :: "page \<Rightarrow> page \<Rightarrow> bool" where
  "registryGrows s s' =
     (claudeRefCounter s \<le> claudeRefCounter s'
      \<and> (\<forall>p\<in>set (claudeElementMap s').
            p \<in> set (claudeElementMap s) \<or> fst p \<notin> set (mintedRefs (claudeRefCounter s))))"

text \<open>The test of line 40 of the form input script.\<close>

definition optionMatches :: "string \<Rightarrow> select_option \<Rightarrow> bool" where
  "optionMatches valueStr opt = (optionValue opt = valueStr \<or> optionText opt = valueStr)"

text \<open>Example pages. A plain element is visible, inside the viewport, and has no
  attributes and no text; the empty page has no handlers.\<close>

definition plainElement :: "string \<Rightarrow> element_obj" where
  "plainElement tag = \<lparr>tagName = tag, attrs = [], interface = OtherElement, typeProp = [],
     directText = [], textContent = [], labelQuery = NoLabel, valueProp = [], checked = False,
     disabled = False, selectOptions = [], selectedIndex = -1,
     computedDisplay = ''block'', computedVisibility = ''visible'', computedOpacity = ''1'',
     offsetWidth = 100, offsetHeight = 20, rectLeft = 0, rectTop = 0, rectRight = 100, rectBottom = 20,
     styleDisplay = [], styleVisibility = []\<rparr>"

definition emptyPage :: page where
  "emptyPage = \<lparr>claudeElementMap = [], claudeRefCounter = 0,
     objects = (\<lambda>_. plainElement ''DIV''), body = None, inDocument = {}, collected = {},
     innerWidth = 1000, innerHeight = 800, focusCalls = [], scrollCalls = [], caretCalls = [], dispatches = [],
     sanitized = (\<lambda>el v. v), canonicalNumber = (\<lambda>v. v), scrollLayout = (\<lambda>e objs. objs),
     listeners = (\<lambda>name e objs. objs)\<rparr>"

definition examplePage :: page where
  "examplePage = emptyPage\<lparr>
     objects := (\<lambda>_. plainElement ''DIV'')
       (0 := plainElement ''BODY'',
        1 := plainElement ''NAV'',
        2 := (plainElement ''A'')\<lparr>attrs := [(''href'', ''/x'')], directText := ''Home''\<rparr>,
        3 := (plainElement ''INPUT'')\<lparr>interface := HTMLInputElement, typeProp := ''text''\<rparr>),
     body := Some (Element 0 [Element 1 [Element 2 []], Element 4 [Element 3 []]]),
     inDocument := {0, 1, 2, 3, 4}\<rparr>"

definition barePage :: page where
  "barePage = emptyPage\<lparr>
     objects := (\<lambda>_. plainElement ''DIV'')(0 := plainElement ''BODY''),
     body := Some (Element 0 []),
     inDocument := {0}\<rparr>"

definition inputPage :: page where
  "inputPage = emptyPage\<lparr>
     objects := (\<lambda>_. plainElement ''DIV'')
       (0 := plainElement ''BODY'',
        1 := (plainElement ''INPUT'')\<lparr>interface := HTMLInputElement, typeProp := ''text''\<rparr>),
     body := Some (Element 0 [Element 1 []]),
     inDocument := {0, 1}\<rparr>"

definition detachedPage :: page where
  "detachedPage = emptyPage\<lparr>
     claudeElementMap := [(''ref_1'', 7)],
     claudeRefCounter := 1,
     objects := (\<lambda>_. plainElement ''DIV'')(0 := plainElement ''BODY''),
     body := Some (Element 0 []),
     inDocument := {0}\<rparr>"

text \<open>A session on the example page: a snapshot; the page then drops the link (element 2)
  and adds a button (element 5); the driver asks for the link's reference; a second
  snapshot.\<close>

definition sessionPage1 :: page where
  "sessionPage1 = snd (generateAccessibilityTree None examplePage)"

definition sessionPage2 :: page where
  "sessionPage2 = sessionPage1\<lparr>
     objects := (objects sessionPage1)(5 := (plainElement ''BUTTON'')\<lparr>directText := ''Go''\<rparr>),
     body := Some (Element 0 [Element 1 [Element 5 []], Element 4 [Element 3 []]]),
     inDocument := {0, 1, 3, 4, 5}\<rparr>"

definition sessionPage3 :: page where
  "sessionPage3 = snd (get_element sessionPage2 ''ref_3'')"

definition sessionPage4 :: page where
  "sessionPage4 = snd (generateAccessibilityTree None sessionPage3)"

text \<open>A page with a form: an unchecked checkbox, a select with two options, a range input
  and a paragraph, each with a reference.\<close>

definition formPage :: page where
  "formPage = emptyPage\<lparr>
     claudeElementMap := [(''ref_1'', 0), (''ref_2'', 1), (''ref_3'', 2), (''ref_4'', 3), (''ref_5'', 4)],
     claudeRefCounter := 5,
     objects := (\<lambda>_. plainElement ''DIV'')
       (0 := plainElement ''BODY'',
        1 := (plainElement ''INPUT'')\<lparr>interface := HTMLInputElement, typeProp := ''checkbox'',
                                      attrs := [(''type'', ''checkbox'')]\<rparr>,
        2 := (plainElement ''SELECT'')\<lparr>interface := HTMLSelectElement, typeProp := ''select-one'',
               selectOptions := [\<lparr>optionValue = ''b'', optionText = ''Blue'', optionTextContent = ''Blue'',
                                  selectedAttr = False\<rparr>,
                                 \<lparr>optionValue = ''g'', optionText = ''Green'', optionTextContent = ''Green'',
                                  selectedAttr = False\<rparr>],
               selectedIndex := 1\<rparr>,
        3 := (plainElement ''INPUT'')\<lparr>interface := HTMLInputElement, typeProp := ''range'',
                                      attrs := [(''type'', ''range'')], valueProp := ''50''\<rparr>,
        4 := (plainElement ''P'')\<lparr>directText := ''Pick a colour''\<rparr>),
     body := Some (Element 0 [Element 1 [], Element 2 [], Element 3 [], Element 4 []]),
     inDocument := {0, 1, 2, 3, 4}\<rparr>"


text \<open>The page's handlers leave a property of an element as it is.\<close>

definition handlersKeep :: "page \<Rightarrow> nat \<Rightarrow> (element_obj \<Rightarrow> 'a) \<Rightarrow> bool" where
  "handlersKeep s e prop = (\<forall>name t objs. prop (listeners s name t objs e) = prop (objs e))"

text \<open>The form page with \<open>onchange="this.checked = false"\<close> on its checkbox.\<close>

definition uncheckingPage :: page where
  "uncheckingPage = formPage\<lparr>
     listeners := (\<lambda>name t objs.
        if name = ''change'' \<and> t = 1 then objs(1 := (objs 1)\<lparr>checked := False\<rparr>) else objs)\<rparr>"

text \<open>A page with an email input that has a reference:
  \<open><body><input type="email"></body>\<close>.\<close>

definition emailPage :: page where
  "emailPage = emptyPage\<lparr>
     claudeElementMap := [(''ref_1'', 0), (''ref_2'', 1)],
     claudeRefCounter := 2,
     objects := (\<lambda>_. plainElement ''DIV'')
       (0 := plainElement ''BODY'',
        1 := (plainElement ''INPUT'')\<lparr>interface := HTMLInputElement, typeProp := ''email'',
                                      attrs := [(''type'', ''email'')]\<rparr>),
     body := Some (Element 0 [Element 1 []]),
     inDocument := {0, 1}\<rparr>"

text \<open>Two pages with a form that holds a text input and a button:
  \<open><body><form><input name="q"><button>Book</button></form></body>\<close>, and the same with
  \<open>name="children"\<close>, where \<open>form.children\<close> is the input, an object without \<open>length\<close>.\<close>

definition formElements :: "string \<Rightarrow> nat \<Rightarrow> element_obj" where
  "formElements controlName = (\<lambda>_. plainElement ''DIV'')
       (0 := plainElement ''BODY'',
        1 := plainElement ''FORM'',
        2 := (plainElement ''INPUT'')\<lparr>interface := HTMLInputElement, typeProp := ''text'',
                                      attrs := [(''name'', controlName)]\<rparr>,
        3 := (plainElement ''BUTTON'')\<lparr>directText := ''Book'', textContent := ''Book''\<rparr>)"

definition searchFormPage :: page where
  "searchFormPage = emptyPage\<lparr>
     objects := formElements ''q'',
     body := Some (Element 0 [Element 1 [Element 2 [], Element 3 []]]),
     inDocument := {0, 1, 2, 3}\<rparr>"

definition shadowedFormPage :: page where
  "shadowedFormPage = emptyPage\<lparr>
     objects := formElements ''children'',
     body := Some (Element 0 [Node 1 [Element 2 [], Element 3 []] (Some [])]),
     inDocument := {0, 1, 2, 3}\<rparr>"
section \<open>Properties of the reference registry\<close>

subsection \<open>Reference names\<close>

lemma numberToString_nonempty: "numberToString n \<noteq> []"
  by (subst numberToString.simps) simp

lemma digitChar_inj:
  assumes "a < 10" "b < 10" "digitChar a = digitChar b"
  shows "a = b"
proof -
  have A: "a \<in> {0,1,2,3,4,5,6,7,8,9}" using assms(1) by auto
  have B: "b \<in> {0,1,2,3,4,5,6,7,8,9}" using assms(2) by auto
  show ?thesis using A B assms(3) by (auto simp: digitChar_def)
qed

lemma numberToString_inj: "numberToString a = numberToString b \<Longrightarrow> a = b"
proof (induction a arbitrary: b rule: numberToString.induct)
  case (1 a)
  show ?case
  proof (cases "a < 10")
    case True
    show ?thesis
    proof (cases "b < 10")
      case bs: True
      from "1.prems" True bs have "digitChar a = digitChar b"
        by (simp add: numberToString.simps[of a] numberToString.simps[of b])
      then show ?thesis using True bs digitChar_inj by blast
    next
      case bl: False
      from "1.prems" True bl have "[digitChar a] = numberToString (b div 10) @ [digitChar (b mod 10)]"
        by (simp add: numberToString.simps[of a] numberToString.simps[of b])
      then have "numberToString (b div 10) = []" by simp
      then show ?thesis using numberToString_nonempty by blast
    qed
  next
    case False
    show ?thesis
    proof (cases "b < 10")
      case bs: True
      from "1.prems" False bs have "numberToString (a div 10) @ [digitChar (a mod 10)] = [digitChar b]"
        by (simp add: numberToString.simps[of a] numberToString.simps[of b])
      then have "numberToString (a div 10) = []" by simp
      then show ?thesis using numberToString_nonempty by blast
    next
      case bl: False
      from "1.prems" False bl
      have eq: "numberToString (a div 10) @ [digitChar (a mod 10)] = numberToString (b div 10) @ [digitChar (b mod 10)]"
        by (simp add: numberToString.simps[of a] numberToString.simps[of b])
      then have h1: "numberToString (a div 10) = numberToString (b div 10)"
        and h2: "digitChar (a mod 10) = digitChar (b mod 10)" by simp_all
      from "1.IH"[OF False h1] have d: "a div 10 = b div 10" .
      from h2 have m: "a mod 10 = b mod 10" by (intro digitChar_inj) simp_all
      from d m show ?thesis by (metis div_mult_mod_eq)
    qed
  qed
qed

lemma mintedRefs_Suc: "set (mintedRefs (Suc n)) = insert (''ref_'' @ numberToString (Suc n)) (set (mintedRefs n))"
  by (auto simp: mintedRefs_def)

lemma mintedRefs_mono: "n \<le> m \<Longrightarrow> set (mintedRefs n) \<subseteq> set (mintedRefs m)"
  by (auto simp: mintedRefs_def)

lemma fresh_not_minted: "''ref_'' @ numberToString (Suc n) \<notin> set (mintedRefs n)"
  by (auto simp: mintedRefs_def dest: numberToString_inj)

lemma minted_nonempty: "r \<in> set (mintedRefs n) \<Longrightarrow> r \<noteq> []"
  by (auto simp: mintedRefs_def)

lemma registryInv_fresh_key:
  "registryInv s \<Longrightarrow> map_of (claudeElementMap s) (''ref_'' @ numberToString (Suc (claudeRefCounter s))) = None"
  unfolding registryInv_def using fresh_not_minted[of "claudeRefCounter s"]
  by (metis (no_types, lifting) map_of_eq_None_iff set_map subsetD)

subsection \<open>Allocation\<close>

lemma deref_Some_iff: "deref s t = Some e \<longleftrightarrow> t = e \<and> e \<notin> collected s"
  by (auto simp: deref_def)

lemma find_fst_Some:
  "find P xs = Some x \<Longrightarrow> x \<in> set xs \<and> P x"
  by (induction xs) (auto split: if_splits)

lemma existingRef_Some:
  assumes "existingRef s e = Some r"
  shows "(r, e) \<in> set (claudeElementMap s) \<and> e \<notin> collected s"
proof -
  from assms obtain p where p: "find (\<lambda>(r, t). deref s t = Some e) (claudeElementMap s) = Some p" "fst p = r"
    unfolding existingRef_def by auto
  from find_fst_Some[OF p(1)] have "p \<in> set (claudeElementMap s)" "deref s (snd p) = Some e"
    by (auto split: prod.splits)
  then show ?thesis using p(2) by (cases p) (auto simp: deref_Some_iff)
qed

lemma existingRef_None:
  assumes "existingRef s e = None" "e \<notin> collected s"
  shows "(r, e) \<notin> set (claudeElementMap s)"
proof
  assume a: "(r, e) \<in> set (claudeElementMap s)"
  from assms(1) have "find (\<lambda>(r, t). deref s t = Some e) (claudeElementMap s) = None"
    unfolding existingRef_def by simp
  then have "\<not> (\<lambda>(r, t). deref s t = Some e) (r, e)" using a unfolding find_None_iff by blast
  then show False using assms(2) by (simp add: deref_def)
qed
lemma allocate_reuse:
  "existingRef s e = Some r \<Longrightarrow> r \<noteq> [] \<Longrightarrow> allocateOrReuse s e = (r, s)"
  by (simp add: allocateOrReuse_def)

lemma registryInv_key_nonempty:
  "registryInv s \<Longrightarrow> (r, t) \<in> set (claudeElementMap s) \<Longrightarrow> r \<noteq> []"
  unfolding registryInv_def using minted_nonempty by (metis fst_conv image_eqI set_map subsetD)

lemma allocate_cases:
  assumes "registryInv s"
  shows "(\<exists>r. existingRef s e = Some r \<and> allocateOrReuse s e = (r, s))
       \<or> (existingRef s e = None \<and>
          allocateOrReuse s e =
            (''ref_'' @ numberToString (Suc (claudeRefCounter s)),
             s\<lparr>claudeRefCounter := Suc (claudeRefCounter s),
               claudeElementMap := claudeElementMap s @ [(''ref_'' @ numberToString (Suc (claudeRefCounter s)), e)]\<rparr>))"
proof (cases "existingRef s e")
  case None
  then show ?thesis using registryInv_fresh_key[OF assms]
    by (simp add: allocateOrReuse_def assignKey_def Let_def)
next
  case (Some r)
  then have "r \<noteq> []" using existingRef_Some registryInv_key_nonempty[OF assms] by blast
  then show ?thesis using Some by (simp add: allocateOrReuse_def)
qed

lemma allocate_registryInv:
  assumes "registryInv s"
  shows "registryInv (snd (allocateOrReuse s e))"
  using allocate_cases[OF assms, of e]
proof (elim disjE exE conjE)
  fix r assume "allocateOrReuse s e = (r, s)"
  then show ?thesis using assms by simp
next
  assume a: "allocateOrReuse s e =
            (''ref_'' @ numberToString (Suc (claudeRefCounter s)),
             s\<lparr>claudeRefCounter := Suc (claudeRefCounter s),
               claudeElementMap := claudeElementMap s @ [(''ref_'' @ numberToString (Suc (claudeRefCounter s)), e)]\<rparr>)"
  have "''ref_'' @ numberToString (Suc (claudeRefCounter s)) \<notin> fst ` set (claudeElementMap s)"
    using assms fresh_not_minted[of "claudeRefCounter s"] unfolding registryInv_def by auto
  then show ?thesis using assms a mintedRefs_Suc[of "claudeRefCounter s"]
    unfolding registryInv_def by auto
qed


subsection \<open>An invariant rule for the traversal\<close>

lemma includeElement_cases:
  "(\<exists>err. getCleanName (objects s e) = Inl err \<and> includeElement d e (s, res) = Thrown err (s, res))
   \<or> (\<exists>name. getCleanName (objects s e) = Inr name \<and>
        includeElement d e (s, res) =
          Normal (snd (allocateOrReuse s e),
                  res @ [\<lparr>emNode = e, emRef = fst (allocateOrReuse s e), emName = name,
                           emLine = yamlLine d (objects s e) (getRole (objects s e)) name
                                      (fst (allocateOrReuse s e))\<rparr>]))"
  by (cases "getCleanName (objects s e)") (simp_all add: includeElement_def Let_def split: prod.splits)

lemma walk_invariant:
  assumes inc: "\<And>d e w. P w \<Longrightarrow> P (outcomeState (includeElement d e w))"
  shows "P w \<Longrightarrow> P (outcomeState (processElement f d t w))"
    and "P w \<Longrightarrow> P (outcomeState (processChildren f d ts w))"
proof (induction f d t w and f d ts w rule: processElement_processChildren.induct)
  case (1 filt depth e kids named w)
  show ?case
  proof (cases "depth > 15 \<or> tagName (objects (fst w) e) = []")
    case True
    then show ?thesis using "1.prems" by (auto simp: processElement.simps(1))
  next
    case False
    show ?thesis
    proof (cases "shouldIncludeElement (fst w) (objects (fst w) e) filt")
      case (Inl err)
      then show ?thesis using False "1.prems" by (simp add: processElement.simps(1))
    next
      case (Inr inc0)
      define act where "act = (inc0 \<or> depth = 0)"
      define o1 where "o1 = (if act then includeElement depth e w else Normal w)"
      have Po1: "P (outcomeState o1)" using inc[OF "1.prems"] "1.prems" by (simp add: o1_def)
      have eq: "processElement filt depth (Node e kids named) w =
          (case o1 of
             Thrown err w' \<Rightarrow> Thrown err w'
           | Normal w' \<Rightarrow>
               if depth < 15 then processChildren filt (if act then depth + 1 else depth)
                 (children (Node e kids named)) w'
               else Normal w')"
        using False Inr by (simp add: o1_def act_def processElement.simps(1))
      show ?thesis
      proof (cases o1)
        case (Thrown err w')
        then show ?thesis using Po1 by (simp add: eq)
      next
        case (Normal w')
        show ?thesis
        proof (cases "depth < 15")
          case True
          have "(if act then includeElement depth e w else Normal w) = Normal w'"
            using Normal by (simp add: o1_def)
          then have "P (outcomeState (processChildren filt (if act then depth + 1 else depth)
                 (children (Node e kids named)) w'))"
            using "1.IH"[of inc0 act w'] False Inr True Po1 Normal
            by (simp add: act_def)
          then show ?thesis using Normal True by (simp add: eq)
        next
          case F2: False
          then show ?thesis using Normal Po1 by (simp add: eq)
        qed
      qed
    qed
  qed
next
  case (2 filt depth w)
  then show ?case by simp
next
  case (3 filt depth k ks w)
  show ?case
  proof (cases "processElement filt depth k w")
    case (Normal w')
    then have "P w'" using "3.IH"(1)[OF "3.prems"] by simp
    then show ?thesis using "3.IH"(2)[OF Normal] Normal by simp
  next
    case (Thrown err w')
    then show ?thesis using "3.IH"(1)[OF "3.prems"] by simp
  qed
qed

lemma processElement_invariant:
  assumes "P w" and "\<And>d e w. P w \<Longrightarrow> P (outcomeState (includeElement d e w))"
  shows "P (outcomeState (processElement f d t w))"
  using walk_invariant(1)[of P w f d t] assms by blast

lemma traverseBody_invariant:
  assumes "P (s, [])" and "\<And>d e w. P w \<Longrightarrow> P (outcomeState (includeElement d e w))"
  shows "P (outcomeState (traverseBody f s))"
proof (cases "body s")
  case None
  then show ?thesis using assms(1) by (simp add: traverseBody_def)
next
  case (Some b)
  then show ?thesis using processElement_invariant[of P "(s, [])" f 0 b] assms
    by (simp add: traverseBody_def)
qed

subsection \<open>References through a pass\<close>

lemma find_append:
  "find P (xs @ ys) = (case find P xs of Some x \<Rightarrow> Some x | None \<Rightarrow> find P ys)"
  by (induction xs) auto

lemma find_filter_same:
  "(\<And>x. P x \<Longrightarrow> Q x) \<Longrightarrow> find P (filter Q xs) = find P xs"
  by (induction xs) auto

lemma existingRef_cong:
  "claudeElementMap s' = claudeElementMap s \<Longrightarrow> collected s' = collected s \<Longrightarrow>
   existingRef s' e = existingRef s e"
  by (simp add: existingRef_def deref_def)

lemma allocate_collected: "collected (snd (allocateOrReuse s e)) = collected s"
  by (simp add: allocateOrReuse_def Let_def)

lemma deref_registry_update [simp]:
  "deref (s\<lparr>claudeRefCounter := c, claudeElementMap := m\<rparr>) t = deref s t"
  by (simp add: deref_def)

lemma existingRef_append:
  "existingRef (s\<lparr>claudeRefCounter := c, claudeElementMap := claudeElementMap s @ [(r, e)]\<rparr>) e0
   = (case existingRef s e0 of
        Some r0 \<Rightarrow> Some r0
      | None \<Rightarrow> if e = e0 \<and> e0 \<notin> collected s then Some r else None)"
  by (simp add: existingRef_def find_append deref_Some_iff split: option.splits)

lemma allocate_keeps_existing:
  assumes "registryInv s" "existingRef s e0 = Some r0"
  shows "existingRef (snd (allocateOrReuse s e)) e0 = Some r0"
  using allocate_cases[OF assms(1), of e]
proof (elim disjE exE conjE)
  fix r assume "allocateOrReuse s e = (r, s)"
  then show ?thesis using assms(2) by simp
next
  assume "allocateOrReuse s e =
            (''ref_'' @ numberToString (Suc (claudeRefCounter s)),
             s\<lparr>claudeRefCounter := Suc (claudeRefCounter s),
               claudeElementMap := claudeElementMap s @ [(''ref_'' @ numberToString (Suc (claudeRefCounter s)), e)]\<rparr>)"
  then show ?thesis using assms(2) by (simp add: existingRef_append)
qed

lemma allocate_binds:
  assumes "registryInv s" "e \<notin> collected s"
  shows "existingRef (snd (allocateOrReuse s e)) e = Some (fst (allocateOrReuse s e))"
  using allocate_cases[OF assms(1), of e]
proof (elim disjE exE conjE)
  fix r assume "existingRef s e = Some r" "allocateOrReuse s e = (r, s)"
  then show ?thesis by simp
next
  assume "existingRef s e = None" and "allocateOrReuse s e =
            (''ref_'' @ numberToString (Suc (claudeRefCounter s)),
             s\<lparr>claudeRefCounter := Suc (claudeRefCounter s),
               claudeElementMap := claudeElementMap s @ [(''ref_'' @ numberToString (Suc (claudeRefCounter s)), e)]\<rparr>)"
  then show ?thesis using assms(2) by (simp add: existingRef_append)
qed

lemma includeElement_entriesBound:
  assumes "entriesBound w"
  shows "entriesBound (outcomeState (includeElement d e w))"
proof -
  obtain s res where w: "w = (s, res)" by (cases w)
  from assms w have inv: "registryInv s"
    and old: "\<forall>x\<in>set res. emNode x \<notin> collected s \<longrightarrow> existingRef s (emNode x) = Some (emRef x)"
    by (auto simp: entriesBound_def)
  from includeElement_cases[of s e d res] show ?thesis
  proof (elim disjE exE conjE)
    fix err assume "includeElement d e (s, res) = Thrown err (s, res)"
    then show ?thesis using assms w by simp
  next
    fix name
    assume i: "includeElement d e (s, res) =
          Normal (snd (allocateOrReuse s e),
                  res @ [\<lparr>emNode = e, emRef = fst (allocateOrReuse s e), emName = name,
                           emLine = yamlLine d (objects s e) (getRole (objects s e)) name
                                      (fst (allocateOrReuse s e))\<rparr>])"
    have 1: "registryInv (snd (allocateOrReuse s e))" by (rule allocate_registryInv[OF inv])
    have 2: "\<forall>x\<in>set res. emNode x \<notin> collected s \<longrightarrow>
               existingRef (snd (allocateOrReuse s e)) (emNode x) = Some (emRef x)"
      using old allocate_keeps_existing[OF inv] by blast
    have 3: "e \<notin> collected s \<longrightarrow> existingRef (snd (allocateOrReuse s e)) e = Some (fst (allocateOrReuse s e))"
      using allocate_binds[OF inv] by blast
    show ?thesis using 1 2 3 by (simp add: w i entriesBound_def allocate_collected)
  qed
qed

lemma includeElement_keeps_existing:
  assumes "registryInv (fst w) \<and> existingRef (fst w) e0 = Some r0"
  shows "registryInv (fst (outcomeState (includeElement d e w)))
       \<and> existingRef (fst (outcomeState (includeElement d e w))) e0 = Some r0"
proof -
  obtain s res where w: "w = (s, res)" by (cases w)
  from includeElement_cases[of s e d res] show ?thesis
    using assms allocate_registryInv[of s e] allocate_keeps_existing[of s e0 r0 e]
    by (auto simp: w)
qed

lemma includeElement_collected:
  "collected (fst (outcomeState (includeElement d e w))) = collected (fst w)"
proof -
  obtain s res where w: "w = (s, res)" by (cases w)
  from includeElement_cases[of s e d res] show ?thesis
    by (auto simp: w allocate_collected)
qed

lemma traverse_entriesBound:
  assumes "registryInv s"
  shows "entriesBound (outcomeState (traverseBody f s))"
proof (rule traverseBody_invariant)
  show "entriesBound (s, [])" using assms by (simp add: entriesBound_def)
next
  fix d e w assume "entriesBound w"
  then show "entriesBound (outcomeState (includeElement d e w))" by (rule includeElement_entriesBound)
qed

lemma traverse_keeps_existing:
  assumes "registryInv s" "existingRef s e0 = Some r0"
  shows "existingRef (fst (outcomeState (traverseBody f s))) e0 = Some r0"
proof -
  let ?P = "\<lambda>w::walk. registryInv (fst w) \<and> existingRef (fst w) e0 = Some r0"
  have "?P (outcomeState (traverseBody f s))"
  proof (rule traverseBody_invariant)
    show "?P (s, [])" using assms by simp
  next
    fix d e w assume "?P w"
    then show "?P (outcomeState (includeElement d e w))" by (rule includeElement_keeps_existing)
  qed
  then show ?thesis by simp
qed

lemma traverse_collected:
  "collected (fst (outcomeState (traverseBody f s))) = collected s"
proof -
  let ?P = "\<lambda>w::walk. collected (fst w) = collected s"
  have "?P (outcomeState (traverseBody f s))"
  proof (rule traverseBody_invariant)
    show "?P (s, [])" by simp
  next
    fix d e w assume "?P w"
    then show "?P (outcomeState (includeElement d e w))" by (simp add: includeElement_collected)
  qed
  then show ?thesis by simp
qed

lemma cleanup_existingRef: "existingRef (cleanupStaleRefs s) e = existingRef s e"
proof -
  have "find (\<lambda>(r, t). deref s t = Some e) (filter (\<lambda>(r, t). deref s t \<noteq> None) (claudeElementMap s))
        = find (\<lambda>(r, t). deref s t = Some e) (claudeElementMap s)"
    by (rule find_filter_same) auto
  then show ?thesis by (simp add: existingRef_def cleanupStaleRefs_def deref_def)
qed

lemma registryInv_filter:
  "registryInv s \<Longrightarrow> registryInv (s\<lparr>claudeElementMap := filter Q (claudeElementMap s)\<rparr>)"
  by (auto simp: registryInv_def distinct_map_filter)

lemma cleanup_registryInv: "registryInv s \<Longrightarrow> registryInv (cleanupStaleRefs s)"
  unfolding cleanupStaleRefs_def by (rule registryInv_filter)

lemma generate_state:
  "snd (generateAccessibilityTree f s) =
     (case traverseBody f s of
        Normal w \<Rightarrow> cleanupStaleRefs (fst w)
      | Thrown err w \<Rightarrow> fst w)"
  by (auto simp: generateAccessibilityTree_def Let_def split: outcome.splits prod.splits)

lemma passEntries_eq: "passEntries f s = snd (outcomeState (traverseBody f s))"
  by (auto simp: passEntries_def split: outcome.splits)

lemma generate_existingRef:
  "existingRef (snd (generateAccessibilityTree f s)) e = existingRef (fst (outcomeState (traverseBody f s))) e"
  by (cases "traverseBody f s") (simp_all add: generate_state cleanup_existingRef)

lemma generate_registryInv:
  assumes "registryInv s"
  shows "registryInv (snd (generateAccessibilityTree f s))"
proof -
  have "registryInv (fst (outcomeState (traverseBody f s)))"
    using traverse_entriesBound[OF assms, of f] by (simp add: entriesBound_def)
  then show ?thesis
    by (cases "traverseBody f s") (simp_all add: generate_state cleanup_registryInv)
qed

lemma generate_collected: "collected (snd (generateAccessibilityTree f s)) = collected s"
  using traverse_collected[of f s]
  by (cases "traverseBody f s") (simp_all add: generate_state cleanupStaleRefs_def)

lemma pass_refs_resolve:
  assumes "registryInv s" "x \<in> set (passEntries f s)" "emNode x \<notin> collected s"
  shows "existingRef (snd (generateAccessibilityTree f s)) (emNode x) = Some (emRef x)"
  using traverse_entriesBound[OF assms(1), of f] assms(2,3)
  by (simp add: generate_existingRef entriesBound_def passEntries_eq traverse_collected)

subsection \<open>Identity stability\<close>

text \<open>
  Claim C1. For a live element (one the collector has not reclaimed) in a registry that
  only the scripts have written to: if some key's handle resolves to the element,
  allocation returns a key already bound to it and leaves the registry and the counter
  as they are; and when one snapshot pass is followed by another on the page state the
  first one left, any line the second pass pushes for the element carries the same
  reference as any line the first pass pushed for it, whatever the two filters.
\<close>

theorem identity_stability:
  assumes "registryInv s" and "e \<notin> collected s"
  shows "(\<forall>r. (r, e) \<in> set (claudeElementMap s) \<longrightarrow>
            (\<exists>r'. (r', e) \<in> set (claudeElementMap s) \<and> allocateOrReuse s e = (r', s)))
       \<and> (\<forall>f1 f2 x y.
             x \<in> set (passEntries f1 s) \<and> emNode x = e
             \<and> y \<in> set (passEntries f2 (snd (generateAccessibilityTree f1 s))) \<and> emNode y = e
             \<longrightarrow> emRef y = emRef x)"
proof (intro conjI allI impI)
  fix r assume "(r, e) \<in> set (claudeElementMap s)"
  then have "existingRef s e \<noteq> None" using existingRef_None[OF _ assms(2)] by blast
  then obtain r' where r': "existingRef s e = Some r'" by blast
  then have "(r', e) \<in> set (claudeElementMap s)" using existingRef_Some by blast
  moreover have "allocateOrReuse s e = (r', s)"
    using allocate_cases[OF assms(1), of e] r' by auto
  ultimately show "\<exists>r'. (r', e) \<in> set (claudeElementMap s) \<and> allocateOrReuse s e = (r', s)" by blast
next
  fix f1 f2 x y
  assume a: "x \<in> set (passEntries f1 s) \<and> emNode x = e
             \<and> y \<in> set (passEntries f2 (snd (generateAccessibilityTree f1 s))) \<and> emNode y = e"
  let ?s1 = "snd (generateAccessibilityTree f1 s)"
  have inv1: "registryInv ?s1" by (rule generate_registryInv[OF assms(1)])
  have live1: "e \<notin> collected ?s1" using assms(2) by (simp add: generate_collected)
  have x: "existingRef ?s1 e = Some (emRef x)"
    using pass_refs_resolve[OF assms(1), of x f1] a assms(2) by simp
  have "existingRef (fst (outcomeState (traverseBody f2 ?s1))) e = Some (emRef x)"
    by (rule traverse_keeps_existing[OF inv1 x])
  then have "existingRef (snd (generateAccessibilityTree f2 ?s1)) e = Some (emRef x)"
    by (simp add: generate_existingRef)
  moreover have "existingRef (snd (generateAccessibilityTree f2 ?s1)) e = Some (emRef y)"
    using pass_refs_resolve[OF inv1, of y f2] a live1 by simp
  ultimately show "emRef y = emRef x" by simp
qed

lemma examplePage_first_pass:
  "map (\<lambda>x. (emNode x, emRef x)) (passEntries None examplePage)
     = [(0, ''ref_1''), (1, ''ref_2''), (2, ''ref_3''), (3, ''ref_4'')]"
  by code_simp

lemma examplePage_second_pass:
  "map (\<lambda>x. (emNode x, emRef x))
       (passEntries (Some ''interactive'') (snd (generateAccessibilityTree None examplePage)))
     = [(0, ''ref_1''), (2, ''ref_3''), (3, ''ref_4'')]"
  by code_simp

theorem identity_stability_witness:
  "registryInv examplePage \<and> 2 \<notin> collected examplePage
   \<and> emNode (passEntries None examplePage ! 2) = 2
   \<and> emNode (passEntries (Some ''interactive'') (snd (generateAccessibilityTree None examplePage)) ! 1) = 2
   \<and> emRef (passEntries (Some ''interactive'') (snd (generateAccessibilityTree None examplePage)) ! 1)
       = emRef (passEntries None examplePage ! 2)
   \<and> emRef (passEntries None examplePage ! 2) = ''ref_3''"
proof -
  let ?p1 = "passEntries None examplePage"
  let ?p2 = "passEntries (Some ''interactive'') (snd (generateAccessibilityTree None examplePage))"
  have inv: "registryInv examplePage"
    by (simp add: registryInv_def examplePage_def emptyPage_def)
  have live: "2 \<notin> collected examplePage"
    by (simp add: examplePage_def emptyPage_def)
  have l1: "length ?p1 = 4" using arg_cong[OF examplePage_first_pass, of length] by simp
  have l2: "length ?p2 = 3" using arg_cong[OF examplePage_second_pass, of length] by simp
  have x: "(emNode (?p1 ! 2), emRef (?p1 ! 2)) = (2, ''ref_3'')"
    using arg_cong[OF examplePage_first_pass, of "\<lambda>l. l ! 2"] l1 by simp
  have y: "(emNode (?p2 ! 1), emRef (?p2 ! 1)) = (2, ''ref_3'')"
    using arg_cong[OF examplePage_second_pass, of "\<lambda>l. l ! 1"] l2 by simp
  have xin: "?p1 ! 2 \<in> set ?p1" using l1 by (simp add: nth_mem)
  have yin: "?p2 ! 1 \<in> set ?p2" using l2 by (simp add: nth_mem)
  from identity_stability[OF inv live] have
    "\<forall>f1 f2 x y.
        x \<in> set (passEntries f1 examplePage) \<and> emNode x = 2
        \<and> y \<in> set (passEntries f2 (snd (generateAccessibilityTree f1 examplePage))) \<and> emNode y = 2
        \<longrightarrow> emRef y = emRef x" by blast
  then have "emRef (?p2 ! 1) = emRef (?p1 ! 2)" using xin yin x y by blast
  then show ?thesis using inv live x y by simp
qed

section \<open>Properties of the snapshot\<close>

subsection \<open>Lines and the post-filter\<close>

lemma yamlLine_nonempty: "yamlLine d el role name r \<noteq> []"
  by (simp add: yamlLine_def)

lemma join_eq_Nil_iff: "(\<forall>x\<in>set xs. x \<noteq> []) \<Longrightarrow> join sep xs = [] \<longleftrightarrow> xs = []"
  by (induction sep xs rule: join.induct) auto

lemma includeElement_result:
  "\<exists>ys. snd (outcomeState (includeElement d e w)) = snd w @ ys \<and> (\<forall>y\<in>set ys. emLine y \<noteq> [])"
proof -
  obtain s res where w: "w = (s, res)" by (cases w)
  from includeElement_cases[of s e d res] show ?thesis
    by (auto simp: w yamlLine_nonempty)
qed

lemma traverse_lines_nonempty: "\<forall>x\<in>set (passEntries f s). emLine x \<noteq> []"
proof -
  let ?P = "\<lambda>w::walk. \<forall>x\<in>set (snd w). emLine x \<noteq> []"
  have "?P (outcomeState (traverseBody f s))"
  proof (rule traverseBody_invariant)
    show "?P (s, [])" by simp
  next
    fix d e and w :: walk assume "?P w"
    then show "?P (outcomeState (includeElement d e w))"
      using includeElement_result[of d e w] by auto
  qed
  then show ?thesis by (simp add: passEntries_eq)
qed

lemma processChildren_extends:
  "\<exists>ys. snd (outcomeState (processChildren f d ts w)) = snd w @ ys"
proof -
  let ?P = "\<lambda>v::walk. \<exists>ys. snd v = snd w @ ys"
  have "?P (outcomeState (processChildren f d ts w))"
  proof (rule walk_invariant(2))
    show "?P w" by simp
  next
    fix d e and v :: walk assume "?P v"
    then show "?P (outcomeState (includeElement d e v))"
      using includeElement_result[of d e v] by auto
  qed
  then show ?thesis .
qed

lemma root_pushed_first:
  assumes "tagName (objects s e) \<noteq> []"
    and "processElement f 0 (Node e kids named) (s, []) = Normal (s', res)"
  shows "\<exists>x rest. res = x # rest \<and> emNode x = e
           \<and> emLine x = yamlLine 0 (objects s e) (getRole (objects s e)) (emName x) (emRef x)"
proof (cases "shouldIncludeElement s (objects s e) f")
  case (Inl err)
  then show ?thesis using assms by (simp add: processElement.simps(1))
next
  case (Inr inc0)
  from includeElement_cases[of s e 0 "[]"] show ?thesis
  proof (elim disjE exE conjE)
    fix err assume "includeElement 0 e (s, []) = Thrown err (s, [])"
    then show ?thesis using assms Inr by (simp add: processElement.simps(1))
  next
    fix name
    assume i: "includeElement 0 e (s, []) =
          Normal (snd (allocateOrReuse s e),
                  [] @ [\<lparr>emNode = e, emRef = fst (allocateOrReuse s e), emName = name,
                           emLine = yamlLine 0 (objects s e) (getRole (objects s e)) name
                                      (fst (allocateOrReuse s e))\<rparr>])"
    let ?x = "\<lparr>emNode = e, emRef = fst (allocateOrReuse s e), emName = name,
                emLine = yamlLine 0 (objects s e) (getRole (objects s e)) name (fst (allocateOrReuse s e))\<rparr>"
    let ?w1 = "(snd (allocateOrReuse s e), [?x])"
    have "processElement f 0 (Node e kids named) (s, []) = processChildren f 1 (children (Node e kids named)) ?w1"
      using assms(1) Inr i by (simp add: processElement.simps(1))
    then have "processChildren f 1 (children (Node e kids named)) ?w1 = Normal (s', res)" using assms(2) by simp
    moreover obtain ys where "snd (outcomeState (processChildren f 1 (children (Node e kids named)) ?w1)) = snd ?w1 @ ys"
      using processChildren_extends by blast
    ultimately have "res = ?x # ys" by simp
    then show ?thesis by simp
  qed
qed

text \<open>A line with a double quote in it is not a bare generic line.\<close>

lemma startsWith_take: "startsWith s p \<longleftrightarrow> take (length p) s = p"
  by (induction s p rule: startsWith.induct) auto

lemma isBareGeneric_chars:
  assumes "isBareGeneric l" "c \<in> set l"
  shows "isWhiteSpace c \<or> isDigit c \<or> c \<in> set ''- generic [ref=ref_]''"
proof -
  define rest where "rest = dropWhile isWhiteSpace l"
  define after where "after = drop (length ''- generic [ref=ref_'') rest"
  from assms(1) have sw: "startsWith rest ''- generic [ref=ref_''"
    and dd: "dropWhile isDigit after = '']''"
    unfolding isBareGeneric_def rest_def after_def Let_def by simp_all
  have l: "l = takeWhile isWhiteSpace l @ rest" by (simp add: rest_def)
  have r: "rest = ''- generic [ref=ref_'' @ after"
    using sw unfolding startsWith_take after_def by (metis append_take_drop_id)
  have a: "after = takeWhile isDigit after @ '']''" using dd by (metis takeWhile_dropWhile_id)
  from assms(2) l r a have
    "c \<in> set (takeWhile isWhiteSpace l) \<or> c \<in> set ''- generic [ref=ref_'' \<or> c \<in> set (takeWhile isDigit after) \<or> c \<in> set '']''"
    by (metis Un_iff set_append)
  then show ?thesis by (auto dest: set_takeWhileD)
qed

lemma quoted_not_bare: "dq \<in> set l \<Longrightarrow> \<not> isBareGeneric l"
proof
  assume "dq \<in> set l" "isBareGeneric l"
  from isBareGeneric_chars[OF this(2,1)] show False
    by (simp add: dq_def isWhiteSpace_def isDigit_def)
qed

lemma named_line_quoted: "name \<noteq> [] \<Longrightarrow> dq \<in> set (yamlLine d el role name r)"
  by (simp add: yamlLine_def)

lemma annotated_line_quoted:
  "elementId el \<noteq> [] \<or> reflected el ''href'' \<noteq> [] \<or> reflected el ''type'' \<noteq> [] \<or> reflected el ''placeholder'' \<noteq> []
   \<Longrightarrow> dq \<in> set (yamlLine d el role name r)"
  by (auto simp: yamlLine_def annotation_def)

lemma generate_content:
  assumes "generateAccessibilityTree f s = (Inr snap, s')"
  shows "pageContent snap = join [CHR 0x0A] (map emLine (outputEntries f s))"
  using assms
  by (auto simp: generateAccessibilityTree_def outputEntries_def passEntries_def Let_def filter_map comp_def
      split: outcome.splits prod.splits)

lemma generate_normal:
  assumes "generateAccessibilityTree f s = (Inr snap, s')"
  shows "\<exists>s1. traverseBody f s = Normal (s1, passEntries f s)"
  using assms
  by (auto simp: generateAccessibilityTree_def passEntries_def Let_def split: outcome.splits prod.splits)

subsection \<open>The root line and the returned text\<close>

text \<open>
  Claim C4, as amended. When \<open>document.body\<close> exists and the pass returns, the line of the
  root is the first one pushed, at depth 0. The returned text is non-empty exactly when
  some pushed line is not a bare generic line, and it is in particular when the root has a
  name or one of the annotated attributes (id, href, type, placeholder).
\<close>

theorem root_line_and_text:
  assumes "body s = Some (Node e kids named)" and "tagName (objects s e) \<noteq> []"
    and "generateAccessibilityTree f s = (Inr snap, s')"
  shows "(\<exists>x rest. passEntries f s = x # rest \<and> emNode x = e
            \<and> emLine x = yamlLine 0 (objects s e) (getRole (objects s e)) (emName x) (emRef x)
            \<and> (emName x \<noteq> [] \<or> elementId (objects s e) \<noteq> [] \<or> reflected (objects s e) ''href'' \<noteq> []
                \<or> reflected (objects s e) ''type'' \<noteq> [] \<or> reflected (objects s e) ''placeholder'' \<noteq> []
                \<longrightarrow> pageContent snap \<noteq> []))
       \<and> (pageContent snap \<noteq> [] \<longleftrightarrow> (\<exists>x\<in>set (passEntries f s). \<not> isBareGeneric (emLine x)))"
proof -
  from generate_normal[OF assms(3)] obtain s1 where t: "traverseBody f s = Normal (s1, passEntries f s)" ..
  then have "processElement f 0 (Node e kids named) (s, []) = Normal (s1, passEntries f s)"
    using assms(1) by (simp add: traverseBody_def)
  from root_pushed_first[OF assms(2) this] obtain x rest where
    x: "passEntries f s = x # rest" "emNode x = e"
       "emLine x = yamlLine 0 (objects s e) (getRole (objects s e)) (emName x) (emRef x)" by blast
  have ne: "\<forall>l\<in>set (map emLine (outputEntries f s)). l \<noteq> []"
    using traverse_lines_nonempty[of f s] by (auto simp: outputEntries_def)
  have iff: "pageContent snap \<noteq> [] \<longleftrightarrow> (\<exists>x\<in>set (passEntries f s). \<not> isBareGeneric (emLine x))"
    using join_eq_Nil_iff[OF ne, of "[CHR 0x0A]"] generate_content[OF assms(3)]
    by (auto simp: outputEntries_def filter_empty_conv)
  have "emName x \<noteq> [] \<or> elementId (objects s e) \<noteq> [] \<or> reflected (objects s e) ''href'' \<noteq> []
        \<or> reflected (objects s e) ''type'' \<noteq> [] \<or> reflected (objects s e) ''placeholder'' \<noteq> []
        \<longrightarrow> pageContent snap \<noteq> []"
  proof
    assume "emName x \<noteq> [] \<or> elementId (objects s e) \<noteq> [] \<or> reflected (objects s e) ''href'' \<noteq> []
        \<or> reflected (objects s e) ''type'' \<noteq> [] \<or> reflected (objects s e) ''placeholder'' \<noteq> []"
    then have "dq \<in> set (emLine x)"
      using named_line_quoted annotated_line_quoted unfolding x(3) by blast
    then have "\<not> isBareGeneric (emLine x)" by (rule quoted_not_bare)
    then show "pageContent snap \<noteq> []" using iff x(1) by auto
  qed
  then show ?thesis using x iff by blast
qed

theorem root_line_and_text_witness:
  "body examplePage = Some (Element 0 [Element 1 [Element 2 []], Element 4 [Element 3 []]])
   \<and> tagName (objects examplePage 0) \<noteq> []
   \<and> isl (fst (generateAccessibilityTree None examplePage)) = False
   \<and> emNode (hd (passEntries None examplePage)) = 0
   \<and> pageContent (projr (fst (generateAccessibilityTree None examplePage))) \<noteq> []"
proof -
  have b: "body examplePage = Some (Element 0 [Element 1 [Element 2 []], Element 4 [Element 3 []]])"
    by (simp add: examplePage_def emptyPage_def)
  have t: "tagName (objects examplePage 0) \<noteq> []"
    by (simp add: examplePage_def emptyPage_def plainElement_def)
  have ok: "isl (fst (generateAccessibilityTree None examplePage)) = False" by code_simp
  then have g: "generateAccessibilityTree None examplePage
      = (Inr (projr (fst (generateAccessibilityTree None examplePage))),
         snd (generateAccessibilityTree None examplePage))"
    by (cases "fst (generateAccessibilityTree None examplePage)") (auto simp: prod_eq_iff)
  have kept: "\<not> isBareGeneric (emLine (passEntries None examplePage ! 2))" by code_simp
  have len: "length (passEntries None examplePage) = 4" by code_simp
  from root_line_and_text[OF b t g] have
    first: "\<exists>x rest. passEntries None examplePage = x # rest \<and> emNode x = 0"
    and iff: "pageContent (projr (fst (generateAccessibilityTree None examplePage))) \<noteq> []
        \<longleftrightarrow> (\<exists>x\<in>set (passEntries None examplePage). \<not> isBareGeneric (emLine x))"
    by blast+
  have "passEntries None examplePage ! 2 \<in> set (passEntries None examplePage)"
    using len by (simp add: nth_mem)
  then have "pageContent (projr (fst (generateAccessibilityTree None examplePage))) \<noteq> []"
    using iff kept by blast
  moreover from first have "emNode (hd (passEntries None examplePage)) = 0" by auto
  ultimately show ?thesis using b t ok by simp
qed

text \<open>The page whose body is empty and bare: the root's line is pushed, the post-filter
  drops it, and the text returned is the empty string.\<close>

theorem empty_snapshot_counterexample:
  "body barePage = Some (Element 0 [])
   \<and> map emLine (passEntries None barePage) = [''- generic [ref=ref_1]'']
   \<and> fst (generateAccessibilityTree None barePage)
       = Inr \<lparr>pageContent = [], viewportWidth = 1000, viewportHeight = 800\<rparr>"
proof -
  have 1: "body barePage = Some (Element 0 [])" by (simp add: barePage_def emptyPage_def)
  have 2: "map emLine (passEntries None barePage) = [''- generic [ref=ref_1]'']" by code_simp
  have 3: "fst (generateAccessibilityTree None barePage)
       = Inr \<lparr>pageContent = [], viewportWidth = 1000, viewportHeight = 800\<rparr>" by code_simp
  show ?thesis using 1 2 3 by simp
qed

subsection \<open>The sweep at the end of a pass\<close>

lemma allocate_keeps_entries:
  assumes "registryInv s"
  shows "set (claudeElementMap s) \<subseteq> set (claudeElementMap (snd (allocateOrReuse s e)))"
  using allocate_cases[OF assms, of e]
proof (elim disjE exE conjE)
  fix r assume "allocateOrReuse s e = (r, s)"
  then show ?thesis by simp
next
  assume "allocateOrReuse s e =
            (''ref_'' @ numberToString (Suc (claudeRefCounter s)),
             s\<lparr>claudeRefCounter := Suc (claudeRefCounter s),
               claudeElementMap := claudeElementMap s @ [(''ref_'' @ numberToString (Suc (claudeRefCounter s)), e)]\<rparr>)"
  then show ?thesis by (simp add: subset_insertI)
qed

lemma includeElement_keeps_entries:
  assumes "registryInv (fst w) \<and> M \<subseteq> set (claudeElementMap (fst w))"
  shows "registryInv (fst (outcomeState (includeElement d e w)))
       \<and> M \<subseteq> set (claudeElementMap (fst (outcomeState (includeElement d e w))))"
proof -
  obtain s res where w: "w = (s, res)" by (cases w)
  from assms w have inv: "registryInv s" and M: "M \<subseteq> set (claudeElementMap s)" by simp_all
  from includeElement_cases[of s e d res] show ?thesis
  proof (elim disjE exE conjE)
    fix err assume "includeElement d e (s, res) = Thrown err (s, res)"
    then show ?thesis using inv M by (simp add: w)
  next
    fix name
    assume "includeElement d e (s, res) =
          Normal (snd (allocateOrReuse s e),
                  res @ [\<lparr>emNode = e, emRef = fst (allocateOrReuse s e), emName = name,
                           emLine = yamlLine d (objects s e) (getRole (objects s e)) name
                                      (fst (allocateOrReuse s e))\<rparr>])"
    then show ?thesis
      using allocate_registryInv[OF inv, of e] allocate_keeps_entries[OF inv, of e] M
      by (simp add: w)
  qed
qed

lemma traverse_keeps_entries:
  assumes "registryInv s"
  shows "set (claudeElementMap s) \<subseteq> set (claudeElementMap (fst (outcomeState (traverseBody f s))))"
proof -
  let ?P = "\<lambda>w::walk. registryInv (fst w) \<and> set (claudeElementMap s) \<subseteq> set (claudeElementMap (fst w))"
  have "?P (outcomeState (traverseBody f s))"
  proof (rule traverseBody_invariant)
    show "?P (s, [])" using assms by simp
  next
    fix d e and w :: walk assume "?P w"
    then show "?P (outcomeState (includeElement d e w))" by (rule includeElement_keeps_entries)
  qed
  then show ?thesis by simp
qed

lemma generate_returned_state:
  assumes "generateAccessibilityTree f s = (Inr snap, s')"
  shows "s' = cleanupStaleRefs (fst (outcomeState (traverseBody f s)))"
  using assms
  by (auto simp: generateAccessibilityTree_def Let_def split: outcome.splits prod.splits)

text \<open>
  Claim C3, as amended. After a pass that returned, every key left in the registry has a
  handle that still resolves: the sweep deletes the keys of collected elements. It does
  not ask whether an element is attached, so in a registry only the scripts wrote to,
  every key of an element that has not been collected is kept, detached or not.
\<close>

theorem sweep_removes_collected:
  assumes "generateAccessibilityTree f s = (Inr snap, s')"
  shows "(\<forall>p\<in>set (claudeElementMap s'). deref s' (snd p) = Some (snd p))
       \<and> (registryInv s \<longrightarrow>
            (\<forall>p\<in>set (claudeElementMap s). snd p \<notin> collected s \<longrightarrow> p \<in> set (claudeElementMap s')))"
proof (intro conjI impI ballI)
  let ?s1 = "fst (outcomeState (traverseBody f s))"
  have s': "s' = cleanupStaleRefs ?s1" by (rule generate_returned_state[OF assms])
  have m: "claudeElementMap s' = filter (\<lambda>(r, t). deref ?s1 t \<noteq> None) (claudeElementMap ?s1)"
    and c: "collected s' = collected ?s1"
    unfolding s' cleanupStaleRefs_def by simp_all
  { fix p assume "p \<in> set (claudeElementMap s')"
    then have "p \<in> set (filter (\<lambda>(r, t). deref ?s1 t \<noteq> None) (claudeElementMap ?s1))"
      unfolding m .
    then have "(\<lambda>(r, t). deref ?s1 t \<noteq> None) p" by simp
    then have "deref ?s1 (snd p) \<noteq> None" by (cases p) simp
    then show "deref s' (snd p) = Some (snd p)"
      unfolding deref_def c by (simp split: if_splits) }
  { fix p assume inv: "registryInv s" and p: "p \<in> set (claudeElementMap s)" "snd p \<notin> collected s"
    have "p \<in> set (claudeElementMap ?s1)" using traverse_keeps_entries[OF inv, of f] p(1) by blast
    moreover have "collected ?s1 = collected s" by (rule traverse_collected)
    moreover from this have "(\<lambda>(r, t). deref ?s1 t \<noteq> None) p"
      using p(2) by (auto simp: deref_def split: prod.splits)
    ultimately have "p \<in> set (filter (\<lambda>(r, t). deref ?s1 t \<noteq> None) (claudeElementMap ?s1))"
      by simp
    then show "p \<in> set (claudeElementMap s')" unfolding m . }
qed

theorem sweep_removes_collected_witness:
  "isl (fst (generateAccessibilityTree None detachedPage)) = False
   \<and> registryInv detachedPage
   \<and> (''ref_1'', 7) \<in> set (claudeElementMap detachedPage) \<and> 7 \<notin> collected detachedPage
   \<and> (''ref_1'', 7) \<in> set (claudeElementMap (snd (generateAccessibilityTree None detachedPage)))
   \<and> deref (snd (generateAccessibilityTree None detachedPage)) 7 = Some 7"
proof -
  let ?g = "generateAccessibilityTree None detachedPage"
  have ok: "isl (fst ?g) = False" by code_simp
  then have g: "?g = (Inr (projr (fst ?g)), snd ?g)"
    by (cases "fst ?g") (auto simp: prod_eq_iff)
  have inv: "registryInv detachedPage"
    by (simp add: registryInv_def detachedPage_def emptyPage_def mintedRefs_def numberToString.simps digitChar_def)
  have m: "(''ref_1'', 7) \<in> set (claudeElementMap detachedPage)"
    by (simp add: detachedPage_def emptyPage_def)
  have live: "7 \<notin> collected detachedPage" by (simp add: detachedPage_def emptyPage_def)
  from sweep_removes_collected[OF g] inv m live
  have kept: "(''ref_1'', 7) \<in> set (claudeElementMap (snd ?g))" by (metis snd_conv)
  with sweep_removes_collected[OF g] have "deref (snd ?g) 7 = Some 7" by (metis snd_conv)
  then show ?thesis using ok inv m live kept by simp
qed

text \<open>Element 7 holds \<open>ref_1\<close>, has left the document and is still in memory. The pass
  returns, and \<open>ref_1\<close> is still a key of the registry.\<close>

theorem detached_entry_counterexample:
  "7 \<notin> inDocument detachedPage
   \<and> fst (generateAccessibilityTree None detachedPage)
       = Inr \<lparr>pageContent = [], viewportWidth = 1000, viewportHeight = 800\<rparr>
   \<and> claudeElementMap (snd (generateAccessibilityTree None detachedPage)) = [(''ref_1'', 7), (''ref_2'', 0)]
   \<and> 7 \<notin> inDocument (snd (generateAccessibilityTree None detachedPage))"
proof -
  have 1: "7 \<notin> inDocument detachedPage" by (simp add: detachedPage_def emptyPage_def)
  have 2: "fst (generateAccessibilityTree None detachedPage)
       = Inr \<lparr>pageContent = [], viewportWidth = 1000, viewportHeight = 800\<rparr>" by code_simp
  have 3: "claudeElementMap (snd (generateAccessibilityTree None detachedPage)) = [(''ref_1'', 7), (''ref_2'', 0)]"
    by code_simp
  have 4: "7 \<notin> inDocument (snd (generateAccessibilityTree None detachedPage))" by code_simp
  show ?thesis using 1 2 3 4 by simp
qed

subsection \<open>Going down through excluded elements\<close>

lemma allocate_sameDom: "sameDom s (snd (allocateOrReuse s e))"
  by (simp add: allocateOrReuse_def sameDom_def Let_def)

lemma sameDom_trans: "sameDom a b \<Longrightarrow> sameDom b c \<Longrightarrow> sameDom a c"
  by (simp add: sameDom_def)

lemma includeElement_sameDom:
  assumes "sameDom s0 (fst w)"
  shows "sameDom s0 (fst (outcomeState (includeElement d e w)))"
proof -
  obtain s res where w: "w = (s, res)" by (cases w)
  from includeElement_cases[of s e d res] show ?thesis
  proof (elim disjE exE conjE)
    fix err assume "includeElement d e (s, res) = Thrown err (s, res)"
    then show ?thesis using assms by (simp add: w)
  next
    fix name
    assume "includeElement d e (s, res) =
          Normal (snd (allocateOrReuse s e),
                  res @ [\<lparr>emNode = e, emRef = fst (allocateOrReuse s e), emName = name,
                           emLine = yamlLine d (objects s e) (getRole (objects s e)) name
                                      (fst (allocateOrReuse s e))\<rparr>])"
    then show ?thesis using assms sameDom_trans[OF _ allocate_sameDom[of s e]] by (simp add: w)
  qed
qed

lemma processElement_sameDom:
  "sameDom s0 (fst w) \<Longrightarrow> sameDom s0 (fst (outcomeState (processElement f d t w)))"
  by (rule processElement_invariant[where P = "\<lambda>w. sameDom s0 (fst w)"]) (simp_all add: includeElement_sameDom)

lemma processChildren_sameDom:
  "sameDom s0 (fst w) \<Longrightarrow> sameDom s0 (fst (outcomeState (processChildren f d ts w)))"
  using walk_invariant(2)[where P = "\<lambda>w. sameDom s0 (fst w)"] includeElement_sameDom by blast

lemma sameDom_decision:
  assumes "sameDom s0 s"
  shows "shouldIncludeElement s (objects s e) f = shouldIncludeElement s0 (objects s0 e) f"
proof -
  have o: "objects s e = objects s0 e" using assms by (simp add: sameDom_def)
  have v: "inViewport s (objects s0 e) = inViewport s0 (objects s0 e)"
    using assms by (simp add: sameDom_def inViewport_def)
  show ?thesis unfolding shouldIncludeElement_def o v ..
qed

lemma processElement_extends:
  "\<exists>ys. snd (outcomeState (processElement f d t w)) = snd w @ ys"
proof -
  let ?P = "\<lambda>v::walk. \<exists>ys. snd v = snd w @ ys"
  have "?P (outcomeState (processElement f d t w))"
  proof (rule processElement_invariant)
    show "?P w" by simp
  next
    fix d e and v :: walk assume "?P v"
    then show "?P (outcomeState (includeElement d e v))"
      using includeElement_result[of d e v] by auto
  qed
  then show ?thesis .
qed

lemma processChildren_append:
  "processChildren f d (xs @ ys) w =
     (case processChildren f d xs w of
        Thrown err w' \<Rightarrow> Thrown err w'
      | Normal w' \<Rightarrow> processChildren f d ys w')"
  by (induction xs arbitrary: w) (auto split: outcome.splits)

text \<open>An element that is visited and accepted has its line pushed, indented by its depth.\<close>

lemma visited_is_pushed:
  assumes run: "processElement f d (Node e kids named) w = Normal w'"
    and dom: "sameDom s (fst w)"
    and d: "d \<le> 15"
    and tag: "tagName (objects s e) \<noteq> []"
    and inc: "shouldIncludeElement s (objects s e) f = Inr True \<or> d = 0"
  shows "\<exists>x\<in>set (snd w'). emNode x = e
           \<and> emLine x = yamlLine d (objects s e) (getRole (objects s e)) (emName x) (emRef x)"
proof -
  obtain s1 res where w: "w = (s1, res)" by (cases w)
  have obj: "objects s1 = objects s" using dom by (simp add: w sameDom_def)
  have dec: "shouldIncludeElement s1 (objects s1 e) f = shouldIncludeElement s (objects s e) f"
    using sameDom_decision[OF dom, of e f] by (simp add: w)
  from run obtain inc0 where inc0: "shouldIncludeElement s (objects s e) f = Inr inc0"
    using d tag dec obj by (cases "shouldIncludeElement s (objects s e) f") (auto simp: processElement.simps(1) w)
  have act: "inc0 \<or> d = 0" using inc inc0 by auto
  have eq: "processElement f d (Node e kids named) w =
      (case includeElement d e w of
         Thrown err w1 \<Rightarrow> Thrown err w1
       | Normal w1 \<Rightarrow> if d < 15 then processChildren f (d + 1) (children (Node e kids named)) w1 else Normal w1)"
    using d tag dec obj inc0 act by (auto simp: processElement.simps(1) w)
  from includeElement_cases[of s1 e d res] show ?thesis
  proof (elim disjE exE conjE)
    fix err assume "includeElement d e (s1, res) = Thrown err (s1, res)"
    then show ?thesis using run eq by (simp add: w)
  next
    fix name
    let ?x = "\<lparr>emNode = e, emRef = fst (allocateOrReuse s1 e), emName = name,
                emLine = yamlLine d (objects s1 e) (getRole (objects s1 e)) name (fst (allocateOrReuse s1 e))\<rparr>"
    let ?w1 = "(snd (allocateOrReuse s1 e), res @ [?x])"
    assume i: "includeElement d e (s1, res) = Normal ?w1"
    have "\<exists>ys. snd w' = snd ?w1 @ ys"
    proof (cases "d < 15")
      case True
      then have "processChildren f (d + 1) (children (Node e kids named)) ?w1 = Normal w'" using run eq i by (simp add: w)
      then show ?thesis using processChildren_extends[of f "d + 1" "children (Node e kids named)" ?w1] by simp
    next
      case False
      then have "w' = ?w1" using run eq i by (simp add: w)
      then show ?thesis by simp
    qed
    then have "?x \<in> set (snd w')" by auto
    then show ?thesis using obj by (intro bexI[of _ ?x]) simp_all
  qed
qed

lemma child_is_pushed:
  assumes run: "processChildren f d (before @ [t] @ after) w = Normal w'"
    and dom: "sameDom s (fst w)"
    and sub: "\<And>w1 w2. sameDom s (fst w1) \<Longrightarrow> processElement f d t w1 = Normal w2 \<Longrightarrow> \<exists>x\<in>set (snd w2). Q x"
  shows "\<exists>x\<in>set (snd w'). Q x"
proof -
  from run obtain w1 where w1: "processChildren f d before w = Normal w1"
    and r1: "processChildren f d ([t] @ after) w1 = Normal w'"
    by (auto simp: processChildren_append[of f d before] split: outcome.splits)
  from r1 obtain w2 where w2: "processElement f d t w1 = Normal w2"
    and r2: "processChildren f d after w2 = Normal w'"
    by (auto split: outcome.splits)
  have "sameDom s (fst w1)" using processChildren_sameDom[OF dom, of f d before] w1 by simp
  from sub[OF this w2] obtain x where x: "x \<in> set (snd w2)" "Q x" by blast
  from processChildren_extends[of f d after w2] r2 obtain ys where "snd w' = snd w2 @ ys" by auto
  then show ?thesis using x by auto
qed

lemma descendant_is_pushed:
  assumes "processElement f d (nest ws (Node e kids named)) w = Normal w'"
    and "sameDom s (fst w)"
    and "ancestorsVisited s f d ws"
    and "depthBelow s f d ws \<le> 15"
    and "tagName (objects s e) \<noteq> []"
    and "shouldIncludeElement s (objects s e) f = Inr True \<or> depthBelow s f d ws = 0"
  shows "\<exists>x\<in>set (snd w'). emNode x = e
           \<and> emLine x = yamlLine (depthBelow s f d ws) (objects s e) (getRole (objects s e)) (emName x) (emRef x)"
  using assms(1,2,3,4,6)
proof (induction ws arbitrary: d w w')
  case Nil
  then have "processElement f d (Node e kids named) w = Normal w'" by simp
  from visited_is_pushed[OF this Nil.prems(2) _ assms(5)] Nil.prems(4,5) show ?case by simp
next
  case (Cons a ws)
  obtain wid before after where a: "a = (wid, before, after)" by (cases a)
  obtain s1 res where w: "w = (s1, res)" by (cases w)
  let ?t = "nest ws (Node e kids named)"
  let ?d' = "childDepth s f d wid"
  have d15: "d < 15" and tag0: "tagName (objects s wid) \<noteq> []" and av: "ancestorsVisited s f ?d' ws"
    using Cons.prems(3) by (simp_all add: a)
  have obj: "objects s1 = objects s" using Cons.prems(2) by (simp add: w sameDom_def)
  have dec: "shouldIncludeElement s1 (objects s1 wid) f = shouldIncludeElement s (objects s wid) f"
    using sameDom_decision[OF Cons.prems(2), of wid f] by (simp add: w)
  have tag: "tagName (objects s1 wid) \<noteq> []" using tag0 obj by simp
  have run0: "processElement f d (Element wid (before @ [?t] @ after)) w = Normal w'"
    using Cons.prems(1) by (simp add: a)
  from run0 obtain inc0 where inc0: "shouldIncludeElement s (objects s wid) f = Inr inc0"
    using d15 tag dec
    by (cases "shouldIncludeElement s (objects s wid) f") (auto simp: processElement.simps(1) w)
  have cd: "?d' = (if inc0 \<or> d = 0 then d + 1 else d)" by (simp add: childDepth_def inc0)
  have sub: "\<And>w1 w2. sameDom s (fst w1) \<Longrightarrow> processElement f ?d' ?t w1 = Normal w2 \<Longrightarrow>
        \<exists>x\<in>set (snd w2). emNode x = e
           \<and> emLine x = yamlLine (depthBelow s f d (a # ws)) (objects s e) (getRole (objects s e)) (emName x) (emRef x)"
  proof -
    fix w1 w2 assume "sameDom s (fst w1)" "processElement f ?d' ?t w1 = Normal w2"
    from Cons.IH[OF this(2,1) av] Cons.prems(4,5) show "\<exists>x\<in>set (snd w2). emNode x = e
           \<and> emLine x = yamlLine (depthBelow s f d (a # ws)) (objects s e) (getRole (objects s e)) (emName x) (emRef x)"
      by (simp add: a)
  qed
  show ?case
  proof (cases "inc0 \<or> d = 0")
    case False
    then have "processElement f d (Element wid (before @ [?t] @ after)) w
        = processChildren f d (before @ [?t] @ after) w"
      using dec tag d15 inc0 by (simp add: processElement.simps(1) w)
    then have "processChildren f ?d' (before @ [?t] @ after) w = Normal w'"
      using run0 False cd by simp
    from child_is_pushed[OF this Cons.prems(2) sub] show ?thesis by simp
  next
    case True
    have eq: "processElement f d (Element wid (before @ [?t] @ after)) w =
      (case includeElement d wid w of
         Thrown err w1 \<Rightarrow> Thrown err w1
       | Normal w1 \<Rightarrow> processChildren f (d + 1) (before @ [?t] @ after) w1)"
      using dec tag d15 inc0 True by (auto simp: processElement.simps(1) w split: outcome.splits)
    then obtain w1 where i: "includeElement d wid w = Normal w1"
      and r: "processChildren f ?d' (before @ [?t] @ after) w1 = Normal w'"
      using run0 True cd by (auto split: outcome.splits)
    have "sameDom s (fst w1)" using includeElement_sameDom[OF Cons.prems(2), of d wid] i by simp
    from child_is_pushed[OF r this sub] show ?thesis by simp
  qed
qed

lemma excluded_wrappers_depth:
  assumes "\<forall>w\<in>set ws. tagName (objects s (fst w)) \<noteq> []
                     \<and> shouldIncludeElement s (objects s (fst w)) f = Inr False"
    and "0 < d" and "d < 15"
  shows "depthBelow s f d ws = d \<and> ancestorsVisited s f d ws"
  using assms by (induction ws) (auto simp: childDepth_def)

text \<open>At depth 15 nothing below the element is visited: at most its own line is pushed.\<close>

lemma no_descent_at_cap:
  "processElement f 15 (Node e kids named) w = Normal w' \<Longrightarrow> length (snd w') \<le> length (snd w) + 1"
proof -
  assume run: "processElement f 15 (Node e kids named) w = Normal w'"
  have "w' = w \<or> w' = outcomeState (includeElement 15 e w)"
    using run by (auto simp: processElement.simps(1) Let_def split: if_splits sum.splits outcome.splits)
  then show ?thesis using includeElement_cases[of "fst w" e 15 "snd w"] by auto
qed

text \<open>A visible interactive element, inside the viewport unless the filter is \<open>"all"\<close>, is
  accepted under every filter.\<close>

lemma interactive_is_accepted:
  assumes "isInteractive el" and "isVisible el"
    and "toLowerCase (tagName el) \<notin> set [''script'', ''style'', ''meta'', ''link'', ''title'', ''noscript'']"
    and "getAttribute el ''aria-hidden'' \<noteq> Some ''true''"
    and "filt = Some ''all'' \<or> inViewport s el"
  shows "shouldIncludeElement s el filt = Inr True"
  using assms unfolding shouldIncludeElement_def Let_def by auto

text \<open>
  Below ancestors whose \<open>children\<close> property is the collection of their child elements
  (the chains that \<open>nest\<close> builds), the traversal goes down through rejected elements:
  take an element below any number of wrappers that the inclusion decision rejects, the
  outermost of them visited at a depth \<open>d\<close> from 1 to 14, and let the pass run to its
  end. If the decision accepts the element (as it does for a visible interactive element,
  lemma \<open>interactive_is_accepted\<close>), its line is pushed, indented by \<open>d\<close>: the wrappers
  are gone through whatever they have before and after, and they use up no depth.
  (Lemma \<open>descendant_is_pushed\<close> is the same for any chain of such ancestors: the depth
  goes up by one at each ancestor that is included, and only there. Lemma
  \<open>no_descent_at_cap\<close>: an element visited at depth 15 has none of its children visited.)
\<close>

lemma unshadowed_wrappers_transparent:
  assumes "processElement f d (nest ws (Node e kids named)) (s, res) = Normal (s', res')"
    and "\<forall>w\<in>set ws. tagName (objects s (fst w)) \<noteq> []
                     \<and> shouldIncludeElement s (objects s (fst w)) f = Inr False"
    and "0 < d" and "d < 15"
    and "tagName (objects s e) \<noteq> []"
    and "shouldIncludeElement s (objects s e) f = Inr True"
  shows "\<exists>x\<in>set res'. emNode x = e
           \<and> emLine x = yamlLine d (objects s e) (getRole (objects s e)) (emName x) (emRef x)"
proof -
  have dom: "sameDom s (fst (s, res))" by (simp add: sameDom_def)
  have dw: "depthBelow s f d ws = d" and av: "ancestorsVisited s f d ws"
    using excluded_wrappers_depth[OF assms(2,3,4)] by simp_all
  from descendant_is_pushed[OF assms(1) dom av _ assms(5)] dw assms(4,6) show ?thesis by simp
qed

text \<open>An element whose \<open>children\<close> property is a control without indexed members: none
  of its child elements is visited, at any depth; at most its own line is pushed.\<close>

lemma shadowed_loop_is_empty:
  "processElement f d (Node e kids (Some [])) w = Normal w' \<Longrightarrow> length (snd w') \<le> length (snd w) + 1"
proof -
  assume run: "processElement f d (Node e kids (Some [])) w = Normal w'"
  have "w' = w \<or> w' = outcomeState (includeElement d e w)"
    using run by (auto simp: processElement.simps(1) Let_def split: if_splits sum.splits outcome.splits)
  then show ?thesis using includeElement_cases[of "fst w" e d "snd w"] by auto
qed

text \<open>
  Claim C6. The loop that visits the children runs over the property \<open>element.children\<close>
  (lines 415 to 423, under the comment \<open>Always traverse children\<close>). On the page
  \<open><body><form><input name="q"><button>Book</button></form></body>\<close> with the filter
  \<open>"interactive"\<close> the form is rejected and gone through: the input and the button are
  visited and their lines are returned, indented as the form would be. On the same page
  with \<open>name="children"\<close> the property \<open>form.children\<close> is the input, which has no
  \<open>length\<close>: the loop runs zero times, neither the input nor the button is visited
  although the decision accepts the button, the root's line is the only one pushed, and
  the text returned is empty. The traversal does not recurse into the children of every
  node, and an interactive descendant of a rejected wrapper is not always emitted.
\<close>

theorem shadowed_children_not_visited:
  "body searchFormPage = Some (Element 0 [Element 1 [Element 2 [], Element 3 []]])
   \<and> map emNode (passEntries (Some ''interactive'') searchFormPage) = [0, 2, 3]
   \<and> map emLine (outputEntries (Some ''interactive'') searchFormPage)
       = [''  - textbox [ref=ref_2]'', ''  - button '' @ [dq] @ ''Book'' @ [dq] @ '' [ref=ref_3]'']
   \<and> body shadowedFormPage = Some (Element 0 [Node 1 [Element 2 [], Element 3 []] (Some [])])
   \<and> shouldIncludeElement shadowedFormPage (objects shadowedFormPage 1) (Some ''interactive'') = Inr False
   \<and> shouldIncludeElement shadowedFormPage (objects shadowedFormPage 3) (Some ''interactive'') = Inr True
   \<and> map emNode (passEntries (Some ''interactive'') shadowedFormPage) = [0]
   \<and> fst (generateAccessibilityTree (Some ''interactive'') shadowedFormPage)
       = Inr \<lparr>pageContent = [], viewportWidth = 1000, viewportHeight = 800\<rparr>"
proof -
  have 1: "body searchFormPage = Some (Element 0 [Element 1 [Element 2 [], Element 3 []]])"
    by (simp add: searchFormPage_def emptyPage_def)
  have 2: "map emNode (passEntries (Some ''interactive'') searchFormPage) = [0, 2, 3]" by code_simp
  have 3: "map emLine (outputEntries (Some ''interactive'') searchFormPage)
       = [''  - textbox [ref=ref_2]'', ''  - button '' @ [dq] @ ''Book'' @ [dq] @ '' [ref=ref_3]'']"
    by code_simp
  have 4: "body shadowedFormPage = Some (Element 0 [Node 1 [Element 2 [], Element 3 []] (Some [])])"
    by (simp add: shadowedFormPage_def emptyPage_def)
  have 5: "shouldIncludeElement shadowedFormPage (objects shadowedFormPage 1) (Some ''interactive'') = Inr False"
    by code_simp
  have 6: "shouldIncludeElement shadowedFormPage (objects shadowedFormPage 3) (Some ''interactive'') = Inr True"
    by code_simp
  have 7: "map emNode (passEntries (Some ''interactive'') shadowedFormPage) = [0]" by code_simp
  have 8: "fst (generateAccessibilityTree (Some ''interactive'') shadowedFormPage)
       = Inr \<lparr>pageContent = [], viewportWidth = 1000, viewportHeight = 800\<rparr>" by code_simp
  show ?thesis using 1 2 3 4 5 6 7 8 by simp
qed
subsection \<open>The interactive filter against the default filter\<close>

text \<open>Below the root only accepted elements are included, so a property of the lines
  pushed needs to be kept only where the decision says yes.\<close>

lemma walk_invariant_accepted:
  shows "(\<And>d e w. P w \<Longrightarrow> shouldIncludeElement (fst w) (objects (fst w) e) f = Inr True
                  \<Longrightarrow> P (outcomeState (includeElement d e w)))
         \<Longrightarrow> 0 < d \<Longrightarrow> P w \<Longrightarrow> P (outcomeState (processElement f d t w))"
    and "(\<And>d e w. P w \<Longrightarrow> shouldIncludeElement (fst w) (objects (fst w) e) f = Inr True
                  \<Longrightarrow> P (outcomeState (includeElement d e w)))
         \<Longrightarrow> 0 < d \<Longrightarrow> P w \<Longrightarrow> P (outcomeState (processChildren f d ts w))"
proof (induction f d t w and f d ts w rule: processElement_processChildren.induct)
  case (1 filt depth e kids named w)
  show ?case
  proof (cases "depth > 15 \<or> tagName (objects (fst w) e) = []")
    case True
    then show ?thesis using "1.prems"(3) by (auto simp: processElement.simps(1))
  next
    case False
    show ?thesis
    proof (cases "shouldIncludeElement (fst w) (objects (fst w) e) filt")
      case (Inl err)
      then show ?thesis using False "1.prems"(3) by (simp add: processElement.simps(1))
    next
      case (Inr inc0)
      define act where "act = (inc0 \<or> depth = 0)"
      have act_eq: "act = inc0" using "1.prems"(2) by (simp add: act_def)
      define o1 where "o1 = (if act then includeElement depth e w else Normal w)"
      have Po1: "P (outcomeState o1)"
      proof (cases inc0)
        case True
        then show ?thesis using "1.prems"(3) Inr "1.prems"(1)[of w e depth] by (simp add: o1_def act_eq)
      next
        case False
        then show ?thesis using "1.prems"(3) by (simp add: o1_def act_eq)
      qed
      have eq: "processElement filt depth (Node e kids named) w =
          (case o1 of
             Thrown err w' \<Rightarrow> Thrown err w'
           | Normal w' \<Rightarrow>
               if depth < 15 then processChildren filt (if act then depth + 1 else depth)
                 (children (Node e kids named)) w'
               else Normal w')"
        using False Inr by (simp add: o1_def act_def processElement.simps(1))
      show ?thesis
      proof (cases o1)
        case (Thrown err w')
        then show ?thesis using Po1 by (simp add: eq)
      next
        case (Normal w')
        show ?thesis
        proof (cases "depth < 15")
          case True
          have n: "(if act then includeElement depth e w else Normal w) = Normal w'"
            using Normal by (simp add: o1_def)
          have pos: "0 < (if act then depth + 1 else depth)" using "1.prems"(2) by simp
          have Pw': "P w'" using Po1 Normal by simp
          have "P (outcomeState (processChildren filt (if act then depth + 1 else depth)
                 (children (Node e kids named)) w'))"
          proof (rule "1.IH"[of inc0 act w'])
            show "\<not> 15 < depth" using False by simp
            show "tagName (objects (fst w) e) \<noteq> []" using False by simp
            show "shouldIncludeElement (fst w) (objects (fst w) e) filt = Inr inc0" by (rule Inr)
            show "act = (inc0 \<or> depth = 0)" by (rule act_def)
            show "(if act then includeElement depth e w else Normal w) = Normal w'" by (rule n)
            show "depth < 15" by (rule True)
            show "0 < (if act then depth + 1 else depth)" by (rule pos)
            show "P w'" by (rule Pw')
            fix d e w assume "P w" "shouldIncludeElement (fst w) (objects (fst w) e) filt = Inr True"
            then show "P (outcomeState (includeElement d e w))" by (rule "1.prems"(1))
          qed
          then show ?thesis using Normal True by (simp add: eq)
        next
          case F2: False
          then show ?thesis using Normal Po1 by (simp add: eq)
        qed
      qed
    qed
  qed
next
  case (2 filt depth w)
  then show ?case by simp
next
  case (3 filt depth k ks w)
  show ?case
  proof (cases "processElement filt depth k w")
    case (Normal w')
    then have "P w'" using "3.IH"(1)[OF "3.prems"] by simp
    then show ?thesis using "3.IH"(2)[OF Normal "3.prems"(1,2)] Normal by simp
  next
    case (Thrown err w')
    then show ?thesis using "3.IH"(1)[OF "3.prems"] by simp
  qed
qed


lemma interactive_decision_monotone:
  assumes "shouldIncludeElement s el (Some ''interactive'') = Inr True"
  shows "shouldIncludeElement s el filt = Inr True"
  using assms by (auto simp: shouldIncludeElement_def Let_def split: if_splits)

lemma includeElement_nodes:
  "\<forall>x\<in>set (snd (outcomeState (includeElement d e w))). x \<in> set (snd w) \<or> emNode x = e"
proof -
  obtain s res where w: "w = (s, res)" by (cases w)
  from includeElement_cases[of s e d res] show ?thesis by (auto simp: w)
qed

lemma accepted_entries_step:
  assumes "sameDom s (fst w) \<and> (\<forall>x\<in>set (snd w). Q (emNode x))" and "Q e"
  shows "sameDom s (fst (outcomeState (includeElement d e w)))
       \<and> (\<forall>x\<in>set (snd (outcomeState (includeElement d e w))). Q (emNode x))"
  using assms includeElement_sameDom[of s w d e] includeElement_nodes[of d e w] by blast

text \<open>
  Claim C5, as amended. On a fixed page state, every line of the pass under
  \<open>filter = "interactive"\<close> is the root's, or is the line of an element that the inclusion
  decision accepts under every filter value, the default one included. (The line need not
  carry a name, and the passes may indent and number it differently. Lemma
  \<open>interactive_decision_monotone\<close> is the statement about the decision alone.)
\<close>

theorem interactive_lines_accepted:
  assumes "body s = Some (Node b kids named)" and "x \<in> set (passEntries (Some ''interactive'') s)"
  shows "emNode x = b \<or> shouldIncludeElement s (objects s (emNode x)) filt = Inr True"
proof -
  let ?f = "Some ''interactive''"
  define Q where "Q = (\<lambda>e. e = b \<or> shouldIncludeElement s (objects s e) ?f = Inr True)"
  define P where "P = (\<lambda>w::walk. sameDom s (fst w) \<and> (\<forall>x\<in>set (snd w). Q (emNode x)))"
  have P0: "P (s, [])" by (simp add: P_def sameDom_def)
  have step: "\<And>d e w. P w \<Longrightarrow> shouldIncludeElement (fst w) (objects (fst w) e) ?f = Inr True
      \<Longrightarrow> P (outcomeState (includeElement d e w))"
  proof -
    fix d e and w :: walk
    assume Pw: "P w" and dec: "shouldIncludeElement (fst w) (objects (fst w) e) ?f = Inr True"
    have "Q e" using sameDom_decision[of s "fst w" e ?f] Pw dec by (simp add: Q_def P_def)
    then show "P (outcomeState (includeElement d e w))"
      using accepted_entries_step[of s w Q e d] Pw by (simp add: P_def)
  qed
  have root: "P (outcomeState (includeElement 0 b (s, [])))"
    using accepted_entries_step[of s "(s, [])" Q b 0] P0 by (simp add: P_def Q_def)
  have "P (outcomeState (processElement ?f 0 (Node b kids named) (s, [])))"
  proof (cases "tagName (objects s b) = []")
    case True
    then show ?thesis using P0 by (simp add: processElement.simps(1))
  next
    case False
    show ?thesis
    proof (cases "shouldIncludeElement s (objects s b) ?f")
      case (Inl err)
      then show ?thesis using False P0 by (simp add: processElement.simps(1))
    next
      case (Inr inc0)
      have eq: "processElement ?f 0 (Node b kids named) (s, []) =
          (case includeElement 0 b (s, []) of
             Thrown err w' \<Rightarrow> Thrown err w'
           | Normal w' \<Rightarrow> processChildren ?f 1 (children (Node b kids named)) w')"
        using False Inr by (simp add: processElement.simps(1) split: outcome.splits)
      show ?thesis
      proof (cases "includeElement 0 b (s, [])")
        case (Thrown err w')
        then show ?thesis using root by (simp add: eq)
      next
        case (Normal w')
        then have "P w'" using root by simp
        then have "P (outcomeState (processChildren ?f 1 (children (Node b kids named)) w'))"
          using walk_invariant_accepted(2)[of P ?f 1 w' "children (Node b kids named)"] step by simp
        then show ?thesis using Normal by (simp add: eq)
      qed
    qed
  qed
  then have "P (outcomeState (traverseBody ?f s))" using assms(1) by (simp add: traverseBody_def)
  then have "Q (emNode x)" using assms(2) by (simp add: P_def passEntries_eq)
  then show ?thesis using interactive_decision_monotone[of s "objects s (emNode x)" filt]
    by (auto simp: Q_def)
qed

theorem interactive_lines_accepted_witness:
  "body inputPage = Some (Element 0 [Element 1 []])
   \<and> map emNode (passEntries (Some ''interactive'') inputPage) = [0, 1]
   \<and> shouldIncludeElement inputPage (objects inputPage 1) None = Inr True"
proof -
  let ?p = "passEntries (Some ''interactive'') inputPage"
  have b: "body inputPage = Some (Element 0 [Element 1 []])" by (simp add: inputPage_def emptyPage_def)
  have n: "map emNode ?p = [0, 1]" by code_simp
  have "length (map emNode ?p) = 2" by (simp add: n)
  then have len: "length ?p = 2" by simp
  have x: "?p ! 1 \<in> set ?p" using len by (simp add: nth_mem)
  have "map emNode ?p ! 1 = 1" by (simp add: n)
  then have e: "emNode (?p ! 1) = 1" using len by simp
  from interactive_lines_accepted[OF b x, of None] e
  have "shouldIncludeElement inputPage (objects inputPage 1) None = Inr True" by simp
  then show ?thesis using b n by simp
qed

text \<open>A visible input without a name: the interactive pass prints its line, and no line
  of the default pass carries a name.\<close>

theorem interactive_lines_counterexample:
  "map emLine (outputEntries (Some ''interactive'') inputPage) = [''  - textbox [ref=ref_2]'']
   \<and> map emLine (outputEntries None inputPage) = [''  - textbox [ref=ref_2]'']
   \<and> filter (\<lambda>x. emName x \<noteq> []) (outputEntries None inputPage) = []"
proof -
  have 1: "map emLine (outputEntries (Some ''interactive'') inputPage) = [''  - textbox [ref=ref_2]'']"
    by code_simp
  have 2: "map emLine (outputEntries None inputPage) = [''  - textbox [ref=ref_2]'']" by code_simp
  have 3: "filter (\<lambda>x. emName x \<noteq> []) (outputEntries None inputPage) = []" by code_simp
  show ?thesis using 1 2 3 by simp
qed

section \<open>Properties of a page session\<close>

lemma registryGrows_refl: "registryGrows s s"
  by (simp add: registryGrows_def)

lemma registryGrows_trans:
  assumes "registryGrows a b" "registryGrows b c"
  shows "registryGrows a c"
proof -
  have le: "claudeRefCounter a \<le> claudeRefCounter b" "claudeRefCounter b \<le> claudeRefCounter c"
    using assms by (simp_all add: registryGrows_def)
  have "\<forall>p\<in>set (claudeElementMap c). p \<in> set (claudeElementMap a) \<or> fst p \<notin> set (mintedRefs (claudeRefCounter a))"
  proof
    fix p assume "p \<in> set (claudeElementMap c)"
    then consider "p \<in> set (claudeElementMap b)" | "fst p \<notin> set (mintedRefs (claudeRefCounter b))"
      using assms(2) by (auto simp: registryGrows_def)
    then show "p \<in> set (claudeElementMap a) \<or> fst p \<notin> set (mintedRefs (claudeRefCounter a))"
    proof cases
      case 1 then show ?thesis using assms(1) by (auto simp: registryGrows_def)
    next
      case 2 then show ?thesis using mintedRefs_mono[OF le(1)] by blast
    qed
  qed
  then show ?thesis using le by (simp add: registryGrows_def)
qed

lemma registryGrows_subset:
  "claudeRefCounter s' = claudeRefCounter s \<Longrightarrow> set (claudeElementMap s') \<subseteq> set (claudeElementMap s)
   \<Longrightarrow> registryGrows s s'"
  by (auto simp: registryGrows_def)

lemma allocate_grows:
  assumes "registryInv s"
  shows "registryGrows s (snd (allocateOrReuse s e))"
  using allocate_cases[OF assms, of e]
proof (elim disjE exE conjE)
  fix r assume "allocateOrReuse s e = (r, s)"
  then show ?thesis by (simp add: registryGrows_refl)
next
  assume "allocateOrReuse s e =
            (''ref_'' @ numberToString (Suc (claudeRefCounter s)),
             s\<lparr>claudeRefCounter := Suc (claudeRefCounter s),
               claudeElementMap := claudeElementMap s @ [(''ref_'' @ numberToString (Suc (claudeRefCounter s)), e)]\<rparr>)"
  then show ?thesis using fresh_not_minted[of "claudeRefCounter s"]
    by (simp add: registryGrows_def)
qed

lemma includeElement_grows:
  assumes "registryInv (fst w) \<and> registryGrows s0 (fst w)"
  shows "registryInv (fst (outcomeState (includeElement d e w)))
       \<and> registryGrows s0 (fst (outcomeState (includeElement d e w)))"
proof -
  obtain s res where w: "w = (s, res)" by (cases w)
  from assms w have inv: "registryInv s" and g: "registryGrows s0 s" by simp_all
  from includeElement_cases[of s e d res] show ?thesis
  proof (elim disjE exE conjE)
    fix err assume "includeElement d e (s, res) = Thrown err (s, res)"
    then show ?thesis using inv g by (simp add: w)
  next
    fix name
    assume "includeElement d e (s, res) =
          Normal (snd (allocateOrReuse s e),
                  res @ [\<lparr>emNode = e, emRef = fst (allocateOrReuse s e), emName = name,
                           emLine = yamlLine d (objects s e) (getRole (objects s e)) name
                                      (fst (allocateOrReuse s e))\<rparr>])"
    then show ?thesis
      using allocate_registryInv[OF inv, of e] registryGrows_trans[OF g allocate_grows[OF inv, of e]]
      by (simp add: w)
  qed
qed

lemma traverse_grows:
  assumes "registryInv s"
  shows "registryGrows s (fst (outcomeState (traverseBody f s)))"
proof -
  let ?P = "\<lambda>w::walk. registryInv (fst w) \<and> registryGrows s (fst w)"
  have "?P (outcomeState (traverseBody f s))"
  proof (rule traverseBody_invariant)
    show "?P (s, [])" using assms by (simp add: registryGrows_refl)
  next
    fix d e and w :: walk assume "?P w"
    then show "?P (outcomeState (includeElement d e w))" by (rule includeElement_grows)
  qed
  then show ?thesis by simp
qed

lemma generate_grows:
  assumes "registryInv s"
  shows "registryGrows s (snd (generateAccessibilityTree f s))"
proof -
  let ?s1 = "fst (outcomeState (traverseBody f s))"
  have g: "registryGrows s ?s1" by (rule traverse_grows[OF assms])
  have "registryGrows ?s1 (cleanupStaleRefs ?s1)"
    by (rule registryGrows_subset) (auto simp: cleanupStaleRefs_def)
  from registryGrows_trans[OF g this] g show ?thesis
    by (cases "traverseBody f s") (simp_all add: generate_state)
qed

text \<open>The two scripts that resolve a reference write to the registry only to delete the key
  they were given.\<close>

lemma resolveElement_registry:
  assumes "resolveElement s r = Inr (x, s')"
  shows "s' = s \<or> s' = s\<lparr>claudeElementMap := deleteKey (claudeElementMap s) r\<rparr>"
  using assms by (auto simp: resolveElement_def Let_def split: property.splits if_splits)

lemma deleteKey_subset: "set (deleteKey m r) \<subseteq> set m"
  by (auto simp: deleteKey_def)

lemma registryInv_deleteKey:
  "registryInv s \<Longrightarrow> registryInv (s\<lparr>claudeElementMap := deleteKey (claudeElementMap s) r\<rparr>)"
  unfolding deleteKey_def by (rule registryInv_filter)

lemma registryInv_cong:
  "claudeElementMap s' = claudeElementMap s \<Longrightarrow> claudeRefCounter s' = claudeRefCounter s
   \<Longrightarrow> registryInv s' = registryInv s"
  by (simp add: registryInv_def)

lemma get_element_registry:
  "claudeRefCounter (snd (get_element s r)) = claudeRefCounter s
   \<and> (claudeElementMap (snd (get_element s r)) = claudeElementMap s
      \<or> claudeElementMap (snd (get_element s r)) = deleteKey (claudeElementMap s) r)"
proof (cases "resolveElement s r")
  case (Inl err)
  then show ?thesis by (simp add: get_element_def)
next
  case (Inr p)
  obtain x s' where p: "p = (x, s')" by (cases p)
  from resolveElement_registry[of s r x s'] Inr p show ?thesis
    by (cases x) (auto simp: get_element_def Let_def)
qed

lemma focusAndNotify_registry [simp]:
  "claudeElementMap (focusAndNotify s e) = claudeElementMap s"
  "claudeRefCounter (focusAndNotify s e) = claudeRefCounter s"
  by (simp_all add: focusAndNotify_def dispatchEvent_def focusElement_def)

lemma updateElement_registry [simp]:
  "claudeElementMap (updateElement s e f) = claudeElementMap s"
  "claudeRefCounter (updateElement s e f) = claudeRefCounter s"
  by (simp_all add: updateElement_def)

lemma assignValue_registry [simp]:
  "claudeElementMap (assignValue s e v) = claudeElementMap s"
  "claudeRefCounter (assignValue s e v) = claudeRefCounter s"
  by (simp_all add: assignValue_def)

lemma selectBranch_registry:
  "claudeElementMap (snd (selectBranch s r e v)) = claudeElementMap s
   \<and> claudeRefCounter (snd (selectBranch s r e v)) = claudeRefCounter s"
  by (simp add: selectBranch_def Let_def split: option.splits)

lemma checkboxBranch_registry:
  "claudeElementMap (snd (checkboxBranch s r e v)) = claudeElementMap s
   \<and> claudeRefCounter (snd (checkboxBranch s r e v)) = claudeRefCounter s"
  by (simp add: checkboxBranch_def Let_def split: js_value.splits)

lemma radioBranch_registry:
  "claudeElementMap (snd (radioBranch s r e)) = claudeElementMap s
   \<and> claudeRefCounter (snd (radioBranch s r e)) = claudeRefCounter s"
  by (simp add: radioBranch_def Let_def)

lemma dateBranch_registry:
  "claudeElementMap (snd (dateBranch s r e v)) = claudeElementMap s
   \<and> claudeRefCounter (snd (dateBranch s r e v)) = claudeRefCounter s"
  by (simp add: dateBranch_def Let_def)

lemma rangeBranch_registry:
  "claudeElementMap (snd (rangeBranch s r e v)) = claudeElementMap s
   \<and> claudeRefCounter (snd (rangeBranch s r e v)) = claudeRefCounter s"
  by (simp add: rangeBranch_def Let_def)

lemma numberBranch_registry:
  "claudeElementMap (snd (numberBranch s r e v)) = claudeElementMap s
   \<and> claudeRefCounter (snd (numberBranch s r e v)) = claudeRefCounter s"
  by (simp add: numberBranch_def Let_def)

lemma textBranch_registry:
  "claudeElementMap (snd (textBranch s r e v)) = claudeElementMap s
   \<and> claudeRefCounter (snd (textBranch s r e v)) = claudeRefCounter s"
  by (simp add: textBranch_def Let_def focusElement_def dispatchEvent_def)

lemma dispatchOnControl_registry:
  "claudeElementMap (snd (dispatchOnControl s r e v)) = claudeElementMap s
   \<and> claudeRefCounter (snd (dispatchOnControl s r e v)) = claudeRefCounter s"
  unfolding dispatchOnControl_def Let_def
  using selectBranch_registry checkboxBranch_registry radioBranch_registry dateBranch_registry
    rangeBranch_registry numberBranch_registry textBranch_registry
  by simp

lemma form_input_registry:
  "claudeRefCounter (snd (form_input s r v)) = claudeRefCounter s
   \<and> (claudeElementMap (snd (form_input s r v)) = claudeElementMap s
      \<or> claudeElementMap (snd (form_input s r v)) = deleteKey (claudeElementMap s) r)"
proof (cases "resolveElement s r")
  case (Inl err)
  then show ?thesis by (simp add: form_input_def)
next
  case (Inr p)
  obtain x s' where p: "p = (x, s')" by (cases p)
  show ?thesis
  proof (cases x)
    case None
    with resolveElement_registry[of s r x s'] Inr p show ?thesis
      by (auto simp: form_input_def)
  next
    case (Some e)
    with resolveElement_registry[of s r x s'] Inr p show ?thesis
      by (auto simp: form_input_def dispatchOnControl_registry)
  qed
qed

lemma pageStep_registry:
  assumes "pageStep s s'" "registryInv s"
  shows "registryInv s' \<and> registryGrows s s'"
  using assms
proof (cases rule: pageStep.cases)
  case install
  then show ?thesis using assms(2) by (simp add: installScript_def registryGrows_refl)
next
  case (snapshot filterType)
  then show ?thesis using generate_registryInv[OF assms(2)] generate_grows[OF assms(2)] by simp
next
  case (locate r)
  have c: "claudeRefCounter s' = claudeRefCounter s" using get_element_registry[of s r] locate by simp
  from get_element_registry[of s r] locate
  consider "claudeElementMap s' = claudeElementMap s" | "claudeElementMap s' = deleteKey (claudeElementMap s) r"
    by auto
  then show ?thesis
  proof cases
    case 1 then show ?thesis using c assms(2) registryInv_cong[OF 1 c] by (simp add: registryGrows_subset)
  next
    case 2
    have "registryInv s'" using registryInv_deleteKey[OF assms(2), of r] 2 c
      by (simp add: registryInv_def)
    then show ?thesis using c 2 deleteKey_subset[of "claudeElementMap s" r] by (simp add: registryGrows_subset)
  qed
next
  case (setValue r v)
  have c: "claudeRefCounter s' = claudeRefCounter s" using form_input_registry[of s r v] setValue by simp
  from form_input_registry[of s r v] setValue
  consider "claudeElementMap s' = claudeElementMap s" | "claudeElementMap s' = deleteKey (claudeElementMap s) r"
    by auto
  then show ?thesis
  proof cases
    case 1 then show ?thesis using c assms(2) registryInv_cong[OF 1 c] by (simp add: registryGrows_subset)
  next
    case 2
    have "registryInv s'" using registryInv_deleteKey[OF assms(2), of r] 2 c
      by (simp add: registryInv_def)
    then show ?thesis using c 2 deleteKey_subset[of "claudeElementMap s" r] by (simp add: registryGrows_subset)
  qed
next
  case pageChange
  then show ?thesis using assms(2) registryInv_cong[of s' s] by (simp add: registryGrows_subset)
qed

lemma session_registry:
  assumes "pageStep\<^sup>*\<^sup>* s s'" "registryInv s"
  shows "registryInv s' \<and> registryGrows s s'"
  using assms
proof (induction rule: rtranclp_induct)
  case base
  then show ?case by (simp add: registryGrows_refl)
next
  case (step y z)
  then have "registryInv y" "registryGrows s y" by simp_all
  with pageStep_registry[OF step.hyps(2)] registryGrows_trans show ?case by blast
qed

lemma freshRegistry_inv: "freshRegistry s \<Longrightarrow> registryInv s"
  by (simp add: freshRegistry_def registryInv_def)

lemma minted_between:
  assumes "r \<in> set (mintedRefs m)" "r \<notin> set (mintedRefs n)"
  shows "\<exists>k. n < k \<and> k \<le> m \<and> r = ''ref_'' @ numberToString k"
proof -
  from assms(1) obtain k where k: "1 \<le> k" "k \<le> m" "r = ''ref_'' @ numberToString k"
    by (auto simp: mintedRefs_def)
  have "n < k" using assms(2) k by (auto simp: mintedRefs_def)
  then show ?thesis using k by blast
qed

text \<open>
  Claim C10. Take a session that starts on a page whose registry is new, and two of its
  states, \<open>s1\<close> before \<open>s2\<close>. The counter has not gone down. A key bound in both states is
  bound to the same element. A key the counter had reached in \<open>s1\<close> that was no longer in
  the registry then is not in the registry in \<open>s2\<close>. And every entry of \<open>s2\<close> that is not
  an entry of \<open>s1\<close> has the key \<open>ref_k\<close> of a counter value \<open>k\<close> above that of \<open>s1\<close>.
\<close>

theorem reference_never_rebound:
  assumes "freshRegistry s0" and "pageStep\<^sup>*\<^sup>* s0 s1" and "pageStep\<^sup>*\<^sup>* s1 s2"
  shows "claudeRefCounter s1 \<le> claudeRefCounter s2
       \<and> (\<forall>r e e'. (r, e) \<in> set (claudeElementMap s1) \<and> (r, e') \<in> set (claudeElementMap s2) \<longrightarrow> e' = e)
       \<and> (\<forall>r e. r \<in> set (mintedRefs (claudeRefCounter s1)) \<and> r \<notin> fst ` set (claudeElementMap s1)
              \<longrightarrow> (r, e) \<notin> set (claudeElementMap s2))
       \<and> (\<forall>p\<in>set (claudeElementMap s2).
              p \<in> set (claudeElementMap s1)
              \<or> (\<exists>k. claudeRefCounter s1 < k \<and> k \<le> claudeRefCounter s2 \<and> fst p = ''ref_'' @ numberToString k))"
proof -
  have inv1: "registryInv s1" using session_registry[OF assms(2) freshRegistry_inv[OF assms(1)]] by simp
  have inv2: "registryInv s2" and g: "registryGrows s1 s2"
    using session_registry[OF assms(3) inv1] by simp_all
  have keys1: "\<And>r e. (r, e) \<in> set (claudeElementMap s1) \<Longrightarrow> r \<in> set (mintedRefs (claudeRefCounter s1))"
    using inv1 by (force simp: registryInv_def)
  have keys2: "\<And>r e. (r, e) \<in> set (claudeElementMap s2) \<Longrightarrow> r \<in> set (mintedRefs (claudeRefCounter s2))"
    using inv2 by (force simp: registryInv_def)
  have old: "\<And>r e. (r, e) \<in> set (claudeElementMap s2) \<Longrightarrow> r \<in> set (mintedRefs (claudeRefCounter s1))
              \<Longrightarrow> (r, e) \<in> set (claudeElementMap s1)"
    using g by (force simp: registryGrows_def)
  have c: "claudeRefCounter s1 \<le> claudeRefCounter s2" using g by (simp add: registryGrows_def)
  have b: "\<forall>r e e'. (r, e) \<in> set (claudeElementMap s1) \<and> (r, e') \<in> set (claudeElementMap s2) \<longrightarrow> e' = e"
  proof (intro allI impI)
    fix r e e' assume a: "(r, e) \<in> set (claudeElementMap s1) \<and> (r, e') \<in> set (claudeElementMap s2)"
    then have "(r, e') \<in> set (claudeElementMap s1)" using old keys1 by blast
    moreover have "distinct (map fst (claudeElementMap s1))" using inv1 by (simp add: registryInv_def)
    ultimately show "e' = e" using a by (meson eq_key_imp_eq_value)
  qed
  have d: "\<forall>r e. r \<in> set (mintedRefs (claudeRefCounter s1)) \<and> r \<notin> fst ` set (claudeElementMap s1)
              \<longrightarrow> (r, e) \<notin> set (claudeElementMap s2)"
    using old by force
  have n: "\<forall>p\<in>set (claudeElementMap s2).
              p \<in> set (claudeElementMap s1)
              \<or> (\<exists>k. claudeRefCounter s1 < k \<and> k \<le> claudeRefCounter s2 \<and> fst p = ''ref_'' @ numberToString k)"
  proof
    fix p assume p: "p \<in> set (claudeElementMap s2)"
    obtain r e where re: "p = (r, e)" by (cases p)
    show "p \<in> set (claudeElementMap s1)
              \<or> (\<exists>k. claudeRefCounter s1 < k \<and> k \<le> claudeRefCounter s2 \<and> fst p = ''ref_'' @ numberToString k)"
    proof (cases "r \<in> set (mintedRefs (claudeRefCounter s1))")
      case True then show ?thesis using old p re by blast
    next
      case False
      then show ?thesis using minted_between[OF keys2 False] p re by auto
    qed
  qed
  show ?thesis using c b d n by blast
qed

lemma session_maps:
  "claudeElementMap sessionPage1 = [(''ref_1'', 0), (''ref_2'', 1), (''ref_3'', 2), (''ref_4'', 3)]
   \<and> claudeElementMap sessionPage4 = [(''ref_1'', 0), (''ref_2'', 1), (''ref_4'', 3), (''ref_5'', 5)]"
proof -
  have 1: "claudeElementMap sessionPage1 = [(''ref_1'', 0), (''ref_2'', 1), (''ref_3'', 2), (''ref_4'', 3)]"
    by code_simp
  have 2: "claudeElementMap sessionPage4 = [(''ref_1'', 0), (''ref_2'', 1), (''ref_4'', 3), (''ref_5'', 5)]"
    by code_simp
  show ?thesis using 1 2 by simp
qed

theorem reference_never_rebound_witness:
  "freshRegistry examplePage
   \<and> pageStep\<^sup>*\<^sup>* examplePage sessionPage1
   \<and> pageStep\<^sup>*\<^sup>* sessionPage1 sessionPage4
   \<and> claudeElementMap sessionPage1 = [(''ref_1'', 0), (''ref_2'', 1), (''ref_3'', 2), (''ref_4'', 3)]
   \<and> claudeElementMap sessionPage4 = [(''ref_1'', 0), (''ref_2'', 1), (''ref_4'', 3), (''ref_5'', 5)]
   \<and> claudeRefCounter sessionPage1 \<le> claudeRefCounter sessionPage4
   \<and> (''ref_3'', 5) \<notin> set (claudeElementMap sessionPage4)"
proof -
  have fresh: "freshRegistry examplePage"
    by (simp add: freshRegistry_def examplePage_def emptyPage_def)
  have a: "pageStep examplePage sessionPage1"
    unfolding sessionPage1_def by (rule pageStep.snapshot)
  have b: "pageStep sessionPage1 sessionPage2"
    by (rule pageStep.pageChange) (simp_all add: sessionPage2_def)
  have c: "pageStep sessionPage2 sessionPage3"
    unfolding sessionPage3_def by (rule pageStep.locate)
  have d: "pageStep sessionPage3 sessionPage4"
    unfolding sessionPage4_def by (rule pageStep.snapshot)
  have r1: "pageStep\<^sup>*\<^sup>* examplePage sessionPage1" using a by (rule r_into_rtranclp)
  have r13: "pageStep\<^sup>*\<^sup>* sessionPage1 sessionPage3"
    using b c by (rule converse_rtranclp_into_rtranclp[OF _ r_into_rtranclp])
  have r2: "pageStep\<^sup>*\<^sup>* sessionPage1 sessionPage4"
    using r13 d by (rule rtranclp.rtrancl_into_rtrancl)
  have r03: "pageStep\<^sup>*\<^sup>* examplePage sessionPage3"
    using r1 r13 by (rule rtranclp_trans)
  have r34: "pageStep\<^sup>*\<^sup>* sessionPage3 sessionPage4" using d by (rule r_into_rtranclp)
  have k3: "''ref_3'' \<in> set (mintedRefs (claudeRefCounter sessionPage3))" by code_simp
  have m3: "''ref_3'' \<notin> fst ` set (claudeElementMap sessionPage3)" by code_simp
  note t34 = reference_never_rebound[OF fresh r03 r34]
  from t34 have "\<forall>r e. r \<in> set (mintedRefs (claudeRefCounter sessionPage3))
                  \<and> r \<notin> fst ` set (claudeElementMap sessionPage3)
              \<longrightarrow> (r, e) \<notin> set (claudeElementMap sessionPage4)"
    by (rule conjunct1[OF conjunct2[OF conjunct2]])
  then have gone: "(''ref_3'', 5) \<notin> set (claudeElementMap sessionPage4)" using k3 m3 by blast
  from reference_never_rebound[OF fresh r1 r2]
  have le: "claudeRefCounter sessionPage1 \<le> claudeRefCounter sessionPage4" by (rule conjunct1)
  show ?thesis using fresh r1 r2 session_maps le gone by simp
qed

section \<open>Properties of the element and form input scripts\<close>

subsection \<open>Messages\<close>

lemma startsWith_append: "startsWith (p @ s) p"
  by (induction p) auto

lemma stringIncludes_append: "stringIncludes (a @ p @ b) p"
proof (induction a)
  case Nil
  show ?case using startsWith_append[of p b] by (cases "p @ b") auto
next
  case (Cons c a)
  then show ?case by simp
qed

lemma startsWith_longer: "startsWith s p \<Longrightarrow> startsWith (s @ b) p"
  by (induction s p rule: startsWith.induct) auto

lemma stringIncludes_longer: "stringIncludes m p \<Longrightarrow> stringIncludes (m @ b) p"
proof (induction m)
  case Nil
  then have "p = []" by simp
  then show ?case by (cases b) auto
next
  case (Cons c m)
  then show ?case using startsWith_longer[of "c # m" p b] by auto
qed

lemma stringIncludes_wider: "stringIncludes m p \<Longrightarrow> stringIncludes (a @ m @ b) p"
  by (induction a) (auto simp: stringIncludes_longer)

lemma join_member: "x \<in> set xs \<Longrightarrow> \<exists>a b. join sep xs = a @ x @ b"
proof (induction sep xs rule: join.induct)
  case (1 sep)
  then show ?case by simp
next
  case (2 sep y)
  then have "join sep [y] = [] @ x @ []" by simp
  then show ?case by blast
next
  case (3 sep y z zs)
  show ?case
  proof (cases "x = y")
    case True
    then have "join sep (y # z # zs) = [] @ x @ (sep @ join sep (z # zs))" by simp
    then show ?thesis by blast
  next
    case False
    then have "x \<in> set (z # zs)" using "3.prems" by simp
    from "3.IH"[OF this] obtain a b where "join sep (z # zs) = a @ x @ b" by blast
    then have "join sep (y # z # zs) = (y @ sep @ a) @ x @ b" by simp
    then show ?thesis by blast
  qed
qed

subsection \<open>Stale references\<close>

lemma resolve_stale:
  assumes "map_of (claudeElementMap s) r = Some t" and "t \<in> collected s \<or> t \<notin> inDocument s"
  shows "resolveElement s r = Inr (None, s\<lparr>claudeElementMap := deleteKey (claudeElementMap s) r\<rparr>)"
  using assms by (auto simp: resolveElement_def lookupRef_def deref_def Let_def)

lemma resolve_live:
  assumes "map_of (claudeElementMap s) r = Some e" and "e \<notin> collected s" and "e \<in> inDocument s"
  shows "resolveElement s r = Inr (Some e, s)"
  using assms by (simp add: resolveElement_def lookupRef_def deref_def Let_def)

lemma deleteKey_gone: "map_of (deleteKey m r) r = None"
  by (auto simp: deleteKey_def map_of_eq_None_iff)

text \<open>
  Claim C2. When the registry has a key for the reference and the key's element has been
  collected or is no longer in the document, \<open>get_element\<close> and \<open>form_input\<close> both return
  the failure object whose message names the reference (they return: an error inside
  either script is caught and turned into a failure object too), and both leave the
  registry without that key.
\<close>

theorem stale_reference_reported:
  assumes "map_of (claudeElementMap s) r = Some t" and "t \<in> collected s \<or> t \<notin> inDocument s"
  shows "get_element s r = (Failure ''get_element'' (notFoundMessage r),
                            s\<lparr>claudeElementMap := deleteKey (claudeElementMap s) r\<rparr>)
       \<and> form_input s r v = (Failure ''form_input'' (notFoundMessage r),
                             s\<lparr>claudeElementMap := deleteKey (claudeElementMap s) r\<rparr>)
       \<and> stringIncludes (notFoundMessage r) r
       \<and> map_of (deleteKey (claudeElementMap s) r) r = None"
proof -
  have "stringIncludes (notFoundMessage r) r"
    unfolding notFoundMessage_def
    using stringIncludes_append[of "''No element found with reference: '' @ [dq]" r
        "[dq] @ ''. The element may have been removed from the page.''"]
    by simp
  then show ?thesis
    using resolve_stale[OF assms] deleteKey_gone[of "claudeElementMap s" r]
    by (simp add: get_element_def form_input_def formFailure_def)
qed

theorem stale_reference_reported_witness:
  "map_of (claudeElementMap detachedPage) ''ref_1'' = Some 7
   \<and> 7 \<notin> inDocument detachedPage
   \<and> fst (get_element detachedPage ''ref_1'') = Failure ''get_element'' (notFoundMessage ''ref_1'')
   \<and> claudeElementMap (snd (get_element detachedPage ''ref_1'')) = []
   \<and> fst (form_input detachedPage ''ref_1'' (JBool True)) = Failure ''form_input'' (notFoundMessage ''ref_1'')
   \<and> claudeElementMap (snd (form_input detachedPage ''ref_1'' (JBool True))) = []"
proof -
  have m: "map_of (claudeElementMap detachedPage) ''ref_1'' = Some 7"
    by (simp add: detachedPage_def emptyPage_def)
  have gone: "7 \<in> collected detachedPage \<or> 7 \<notin> inDocument detachedPage"
    by (simp add: detachedPage_def emptyPage_def)
  have d: "deleteKey (claudeElementMap detachedPage) ''ref_1'' = []"
    by (simp add: detachedPage_def emptyPage_def deleteKey_def)
  from stale_reference_reported[OF m gone, of "JBool True"] d m gone show ?thesis
    by (simp add: detachedPage_def emptyPage_def)
qed

subsection \<open>Checkboxes\<close>

lemma form_input_live:
  assumes "map_of (claudeElementMap s) r = Some e" and "e \<notin> collected s" and "e \<in> inDocument s"
  shows "form_input s r v = dispatchOnControl (s\<lparr>scrollCalls := scrollCalls s @ [(e, ''smooth'')]\<rparr>) r e v"
  using resolve_live[OF assms] by (simp add: form_input_def)

text \<open>What \<open>focus()\<close> and the two dispatches append to the logs, and what they leave alone
  when the page's handlers do.\<close>

lemma focusAndNotify_dispatches:
  "dispatches (focusAndNotify s e)
     = dispatches s @ [\<lparr>eventType = ''change'', eventTarget = e, bubbles = True\<rparr>,
                       \<lparr>eventType = ''input'', eventTarget = e, bubbles = True\<rparr>]"
  by (simp add: focusAndNotify_def dispatchEvent_def focusElement_def)

lemma focusAndNotify_keeps:
  assumes "handlersKeep s0 e prop" and "listeners s = listeners s0"
  shows "prop (objects (focusAndNotify s t) e) = prop (objects s e)"
proof -
  have k: "\<And>name objs. prop (listeners s name t objs e) = prop (objs e)"
    using assms by (simp add: handlersKeep_def)
  show ?thesis by (simp add: focusAndNotify_def dispatchEvent_def focusElement_def k)
qed

text \<open>
  Claim C7. For a reference that resolves to a checkbox input: with a boolean argument
  \<open>b\<close>, \<open>form_input\<close> assigns \<open>b\<close> to \<open>checked\<close>, calls \<open>focus()\<close> and dispatches a bubbling
  \<open>change\<close> event and then a bubbling \<open>input\<close> event on the element, and nothing else; it
  returns success with element type \<open>checkbox\<close>, the checked state from before the call as
  previous value, and as new value the checked state it reads once the page's handlers
  have run. When those handlers leave the checked state of the element alone, the new
  value is \<open>b\<close> and the element is then checked or not as \<open>b\<close> says. With any other
  argument it returns a failure.
\<close>

theorem checkbox_set:
  assumes "map_of (claudeElementMap s) r = Some e" and "e \<notin> collected s" and "e \<in> inDocument s"
    and "interface (objects s e) = HTMLInputElement" and "typeProp (objects s e) = ''checkbox''"
  shows "(\<forall>b. snd (form_input s r (JBool b))
              = focusAndNotify
                  (updateElement (s\<lparr>scrollCalls := scrollCalls s @ [(e, ''smooth'')]\<rparr>) e
                     (\<lambda>el. el\<lparr>checked := b\<rparr>)) e
            \<and> fst (form_input s r (JBool b))
              = Success \<lparr>ref = r, element_type = ''checkbox'',
                         previous_value = JBool (checked (objects s e)),
                         new_value = JBool (checked (objects (snd (form_input s r (JBool b))) e)),
                         message = ''Checkbox ''
                           @ (if checked (objects (snd (form_input s r (JBool b))) e)
                              then ''checked'' else ''unchecked'')\<rparr>
            \<and> dispatches (snd (form_input s r (JBool b)))
              = dispatches s @ [\<lparr>eventType = ''change'', eventTarget = e, bubbles = True\<rparr>,
                                \<lparr>eventType = ''input'', eventTarget = e, bubbles = True\<rparr>]
            \<and> (handlersKeep s e checked \<longrightarrow>
                 fst (form_input s r (JBool b))
                   = Success \<lparr>ref = r, element_type = ''checkbox'',
                              previous_value = JBool (checked (objects s e)), new_value = JBool b,
                              message = ''Checkbox '' @ (if b then ''checked'' else ''unchecked'')\<rparr>
                 \<and> checked (objects (snd (form_input s r (JBool b))) e) = b))
       \<and> (\<forall>v. (\<forall>b. v \<noteq> JBool b) \<longrightarrow>
              fst (form_input s r v) = Failure ''form_input'' ''Checkbox requires a boolean value (true/false)'')"
proof -
  let ?s1 = "s\<lparr>scrollCalls := scrollCalls s @ [(e, ''smooth'')]\<rparr>"
  let ?after = "\<lambda>b. focusAndNotify (updateElement ?s1 e (\<lambda>el. el\<lparr>checked := b\<rparr>)) e"
  have d: "\<And>v. form_input s r v = checkboxBranch ?s1 r e v"
    using form_input_live[OF assms(1-3)] assms(4,5) by (simp add: dispatchOnControl_def)
  have st: "\<And>b. snd (form_input s r (JBool b)) = ?after b"
    by (simp add: d checkboxBranch_def Let_def)
  have ok: "\<And>b. fst (form_input s r (JBool b))
              = Success \<lparr>ref = r, element_type = ''checkbox'',
                         previous_value = JBool (checked (objects s e)),
                         new_value = JBool (checked (objects (?after b) e)),
                         message = ''Checkbox ''
                           @ (if checked (objects (?after b) e) then ''checked'' else ''unchecked'')\<rparr>"
    by (simp add: d checkboxBranch_def Let_def)
  have ev: "\<And>b. dispatches (?after b)
              = dispatches s @ [\<lparr>eventType = ''change'', eventTarget = e, bubbles = True\<rparr>,
                                \<lparr>eventType = ''input'', eventTarget = e, bubbles = True\<rparr>]"
    by (simp add: focusAndNotify_dispatches updateElement_def)
  have keep: "\<And>b. handlersKeep s e checked \<Longrightarrow> checked (objects (?after b) e) = b"
  proof -
    fix b assume h: "handlersKeep s e checked"
    have "listeners (updateElement ?s1 e (\<lambda>el. el\<lparr>checked := b\<rparr>)) = listeners s"
      by (simp add: updateElement_def)
    from focusAndNotify_keeps[OF h this, of e]
    show "checked (objects (?after b) e) = b" by (simp add: updateElement_def)
  qed
  have bad: "\<And>v. (\<forall>b. v \<noteq> JBool b) \<Longrightarrow>
      fst (form_input s r v) = Failure ''form_input'' ''Checkbox requires a boolean value (true/false)''"
    by (simp add: d checkboxBranch_def formFailure_def split: js_value.splits)
  show ?thesis
  proof (intro conjI allI impI)
    fix b show "snd (form_input s r (JBool b)) = ?after b" by (rule st)
    show "fst (form_input s r (JBool b))
              = Success \<lparr>ref = r, element_type = ''checkbox'',
                         previous_value = JBool (checked (objects s e)),
                         new_value = JBool (checked (objects (snd (form_input s r (JBool b))) e)),
                         message = ''Checkbox ''
                           @ (if checked (objects (snd (form_input s r (JBool b))) e)
                              then ''checked'' else ''unchecked'')\<rparr>"
      unfolding st by (rule ok)
    show "dispatches (snd (form_input s r (JBool b)))
              = dispatches s @ [\<lparr>eventType = ''change'', eventTarget = e, bubbles = True\<rparr>,
                                \<lparr>eventType = ''input'', eventTarget = e, bubbles = True\<rparr>]"
      unfolding st by (rule ev)
  next
    fix b assume h: "handlersKeep s e checked"
    show "fst (form_input s r (JBool b))
                   = Success \<lparr>ref = r, element_type = ''checkbox'',
                              previous_value = JBool (checked (objects s e)), new_value = JBool b,
                              message = ''Checkbox '' @ (if b then ''checked'' else ''unchecked'')\<rparr>"
      using ok[of b] keep[OF h, of b] by simp
    show "checked (objects (snd (form_input s r (JBool b))) e) = b"
      unfolding st by (rule keep[OF h])
  next
    fix v assume "\<forall>b. v \<noteq> JBool b"
    then show "fst (form_input s r v) = Failure ''form_input'' ''Checkbox requires a boolean value (true/false)''"
      by (rule bad)
  qed
qed

theorem checkbox_set_witness:
  "map_of (claudeElementMap formPage) ''ref_2'' = Some 1
   \<and> 1 \<notin> collected formPage \<and> 1 \<in> inDocument formPage
   \<and> interface (objects formPage 1) = HTMLInputElement \<and> typeProp (objects formPage 1) = ''checkbox''
   \<and> checked (objects formPage 1) = False
   \<and> handlersKeep formPage 1 checked
   \<and> fst (form_input formPage ''ref_2'' (JBool True))
       = Success \<lparr>ref = ''ref_2'', element_type = ''checkbox'', previous_value = JBool False,
                  new_value = JBool True, message = ''Checkbox checked''\<rparr>
   \<and> checked (objects (snd (form_input formPage ''ref_2'' (JBool True))) 1) = True
   \<and> dispatches (snd (form_input formPage ''ref_2'' (JBool True)))
       = [\<lparr>eventType = ''change'', eventTarget = 1, bubbles = True\<rparr>,
          \<lparr>eventType = ''input'', eventTarget = 1, bubbles = True\<rparr>]
   \<and> fst (form_input formPage ''ref_2'' (JString ''yes''))
       = Failure ''form_input'' ''Checkbox requires a boolean value (true/false)''"
proof -
  have m: "map_of (claudeElementMap formPage) ''ref_2'' = Some 1" by (simp add: formPage_def emptyPage_def)
  have l: "1 \<notin> collected formPage" by (simp add: formPage_def emptyPage_def)
  have a: "1 \<in> inDocument formPage" by (simp add: formPage_def emptyPage_def)
  have i: "interface (objects formPage 1) = HTMLInputElement" by (simp add: formPage_def emptyPage_def)
  have t: "typeProp (objects formPage 1) = ''checkbox''" by (simp add: formPage_def emptyPage_def)
  have c: "checked (objects formPage 1) = False" by (simp add: formPage_def emptyPage_def plainElement_def)
  have e: "dispatches formPage = []" by (simp add: formPage_def emptyPage_def)
  have h: "handlersKeep formPage 1 checked" by (simp add: handlersKeep_def formPage_def emptyPage_def)
  have n: "\<forall>b. JString ''yes'' \<noteq> JBool b" by simp
  note cs = checkbox_set[OF m l a i t]
  have k: "handlersKeep formPage 1 checked \<longrightarrow>
      fst (form_input formPage ''ref_2'' (JBool True))
        = Success \<lparr>ref = ''ref_2'', element_type = ''checkbox'',
                   previous_value = JBool (checked (objects formPage 1)), new_value = JBool True,
                   message = ''Checkbox '' @ (if True then ''checked'' else ''unchecked'')\<rparr>
      \<and> checked (objects (snd (form_input formPage ''ref_2'' (JBool True))) 1) = True"
    using cs by blast
  have ok: "fst (form_input formPage ''ref_2'' (JBool True))
       = Success \<lparr>ref = ''ref_2'', element_type = ''checkbox'', previous_value = JBool False,
                  new_value = JBool True, message = ''Checkbox checked''\<rparr>"
    and ch: "checked (objects (snd (form_input formPage ''ref_2'' (JBool True))) 1) = True"
    using k h c by simp_all
  have "dispatches (snd (form_input formPage ''ref_2'' (JBool True)))
       = dispatches formPage @ [\<lparr>eventType = ''change'', eventTarget = 1, bubbles = True\<rparr>,
                                \<lparr>eventType = ''input'', eventTarget = 1, bubbles = True\<rparr>]"
    using cs by blast
  then have ev: "dispatches (snd (form_input formPage ''ref_2'' (JBool True)))
       = [\<lparr>eventType = ''change'', eventTarget = 1, bubbles = True\<rparr>,
          \<lparr>eventType = ''input'', eventTarget = 1, bubbles = True\<rparr>]"
    using e by simp
  have bad: "fst (form_input formPage ''ref_2'' (JString ''yes''))
       = Failure ''form_input'' ''Checkbox requires a boolean value (true/false)''"
    using cs n by blast
  show ?thesis using m l a i t c h ok ch ev bad by simp
qed

text \<open>The checkbox of \<open>uncheckingPage\<close> has a \<open>change\<close> handler that unchecks it: setting it
  to \<open>true\<close> succeeds and reports the new value \<open>false\<close>.\<close>

theorem checkbox_handler_counterexample:
  "map_of (claudeElementMap uncheckingPage) ''ref_2'' = Some 1
   \<and> 1 \<notin> collected uncheckingPage \<and> 1 \<in> inDocument uncheckingPage
   \<and> interface (objects uncheckingPage 1) = HTMLInputElement
   \<and> typeProp (objects uncheckingPage 1) = ''checkbox''
   \<and> checked (objects uncheckingPage 1) = False
   \<and> fst (form_input uncheckingPage ''ref_2'' (JBool True))
       = Success \<lparr>ref = ''ref_2'', element_type = ''checkbox'', previous_value = JBool False,
                  new_value = JBool False, message = ''Checkbox unchecked''\<rparr>
   \<and> dispatches (snd (form_input uncheckingPage ''ref_2'' (JBool True)))
       = [\<lparr>eventType = ''change'', eventTarget = 1, bubbles = True\<rparr>,
          \<lparr>eventType = ''input'', eventTarget = 1, bubbles = True\<rparr>]"
proof -
  have m: "map_of (claudeElementMap uncheckingPage) ''ref_2'' = Some 1"
    by (simp add: uncheckingPage_def formPage_def emptyPage_def)
  have l: "1 \<notin> collected uncheckingPage" by (simp add: uncheckingPage_def formPage_def emptyPage_def)
  have a: "1 \<in> inDocument uncheckingPage" by (simp add: uncheckingPage_def formPage_def emptyPage_def)
  have i: "interface (objects uncheckingPage 1) = HTMLInputElement"
    by (simp add: uncheckingPage_def formPage_def emptyPage_def)
  have t: "typeProp (objects uncheckingPage 1) = ''checkbox''"
    by (simp add: uncheckingPage_def formPage_def emptyPage_def)
  have c: "checked (objects uncheckingPage 1) = False"
    by (simp add: uncheckingPage_def formPage_def emptyPage_def plainElement_def)
  have r: "fst (form_input uncheckingPage ''ref_2'' (JBool True))
       = Success \<lparr>ref = ''ref_2'', element_type = ''checkbox'', previous_value = JBool False,
                  new_value = JBool False, message = ''Checkbox unchecked''\<rparr>" by code_simp
  have ev: "dispatches (snd (form_input uncheckingPage ''ref_2'' (JBool True)))
       = [\<lparr>eventType = ''change'', eventTarget = 1, bubbles = True\<rparr>,
          \<lparr>eventType = ''input'', eventTarget = 1, bubbles = True\<rparr>]" by code_simp
  show ?thesis using m l a i t c r ev by simp
qed
subsection \<open>Selects\<close>

lemma findOption_None: "findOption opts str k = None \<longleftrightarrow> (\<forall>opt\<in>set opts. \<not> optionMatches str opt)"
  by (induction opts str k rule: findOption.induct) (auto simp: optionMatches_def)

lemma findOption_Some:
  "findOption opts str k = Some i \<longleftrightarrow>
     (k \<le> i \<and> i - k < length opts \<and> optionMatches str (opts ! (i - k))
      \<and> (\<forall>j<i - k. \<not> optionMatches str (opts ! j)))"
proof (induction opts str k arbitrary: i rule: findOption.induct)
  case (1 valueStr k)
  then show ?case by simp
next
  case (2 opt opts valueStr k)
  show ?case
  proof (cases "optionMatches valueStr opt")
    case True
    have "(k \<le> i \<and> i - k < length (opt # opts) \<and> optionMatches valueStr ((opt # opts) ! (i - k))
            \<and> (\<forall>j<i - k. \<not> optionMatches valueStr ((opt # opts) ! j))) \<longleftrightarrow> i = k"
      using True by (cases "i - k") auto
    then show ?thesis using True by (auto simp: optionMatches_def)
  next
    case False
    have "(k \<le> i \<and> i - k < length (opt # opts) \<and> optionMatches valueStr ((opt # opts) ! (i - k))
            \<and> (\<forall>j<i - k. \<not> optionMatches valueStr ((opt # opts) ! j)))
         \<longleftrightarrow> (k + 1 \<le> i \<and> i - (k + 1) < length opts \<and> optionMatches valueStr (opts ! (i - (k + 1)))
            \<and> (\<forall>j<i - (k + 1). \<not> optionMatches valueStr (opts ! j)))" (is "?L \<longleftrightarrow> ?R")
    proof
      assume L: ?L
      then have "i - k \<noteq> 0" using False by (cases "i - k") auto
      then obtain n where n: "i - k = Suc n" by (cases "i - k") auto
      then have ik: "i - (k + 1) = n" by simp
      have "\<forall>j<n. \<not> optionMatches valueStr (opts ! j)"
      proof (intro allI impI)
        fix j assume "j < n"
        then have "Suc j < i - k" using n by simp
        then have "\<not> optionMatches valueStr ((opt # opts) ! Suc j)" using L by blast
        then show "\<not> optionMatches valueStr (opts ! j)" by simp
      qed
      then show ?R using L n ik by auto
    next
      assume R: ?R
      define n where "n = i - (k + 1)"
      have ik: "i - k = Suc n" using R n_def by auto
      have "\<forall>j<Suc n. \<not> optionMatches valueStr ((opt # opts) ! j)"
      proof (intro allI impI)
        fix j assume j: "j < Suc n"
        show "\<not> optionMatches valueStr ((opt # opts) ! j)"
        proof (cases j)
          case 0 then show ?thesis using False by simp
        next
          case (Suc m) then show ?thesis using R j n_def by auto
        qed
      qed
      then show ?L using R ik n_def by auto
    qed
    then show ?thesis using False "2.IH"[of i] by (auto simp: optionMatches_def)
  qed
qed

lemma selectBranch_found:
  assumes "findOption (selectOptions (objects s e)) (toString v) 0 = Some i"
  shows "selectBranch s r e v
       = (Success \<lparr>ref = r, element_type = ''select'',
                   previous_value = JString (selectValue (objects s e)),
                   new_value = JString (selectValue (objects
                     (focusAndNotify (updateElement s e (\<lambda>el. el\<lparr>selectedIndex := int i\<rparr>)) e) e)),
                   message = ''Selected option '' @ [dq] @ toString v @ [dq] @ '' in dropdown''\<rparr>,
          focusAndNotify (updateElement s e (\<lambda>el. el\<lparr>selectedIndex := int i\<rparr>)) e)"
  using assms by (simp add: selectBranch_def Let_def)

lemma selectBranch_missing:
  assumes "findOption (selectOptions (objects s e)) (toString v) 0 = None"
  shows "selectBranch s r e v
       = (Failure ''form_input'' (optionNotFoundMessage (toString v) (selectOptions (objects s e))), s)"
  using assms by (simp add: selectBranch_def Let_def formFailure_def)

lemma message_lists_option:
  assumes "opt \<in> set opts"
  shows "stringIncludes (optionNotFoundMessage str opts) (describeOption opt)"
proof -
  have "describeOption opt \<in> set (map describeOption opts)" using assms by simp
  from join_member[OF this, of "'', ''"] obtain a b where
    "join '', '' (map describeOption opts) = a @ describeOption opt @ b" by blast
  then have "optionNotFoundMessage str opts
      = (''Option '' @ [dq] @ str @ [dq] @ '' not found. Available options: '' @ a) @ describeOption opt @ b"
    by (simp add: optionNotFoundMessage_def)
  then show ?thesis using stringIncludes_append by metis
qed

text \<open>
  Claim C8. For a reference that resolves to a select element, with \<open>opts\<close> its options:
  \<open>form_input\<close> returns success exactly when the stringified argument is the value or the
  text of some option; the option selected is then the first such one: its index is
  assigned to \<open>selectedIndex\<close> before \<open>focus()\<close> and the two events, and the new value
  reported is the value of the select read after them, which is that option's value when
  the page's handlers leave the selection and the options of the element alone; and when
  no option matches, the failure's message is the one that lists, for every option, its
  text and its value, and the element is as it was.
\<close>

theorem select_matching:
  assumes "map_of (claudeElementMap s) r = Some e" and "e \<notin> collected s" and "e \<in> inDocument s"
    and "interface (objects s e) = HTMLSelectElement"
    and "opts = selectOptions (objects s e)"
  shows "((\<exists>p. fst (form_input s r v) = Success p) \<longleftrightarrow> (\<exists>opt\<in>set opts. optionMatches (toString v) opt))
       \<and> (\<forall>i<length opts. optionMatches (toString v) (opts ! i) \<and> (\<forall>j<i. \<not> optionMatches (toString v) (opts ! j))
            \<longrightarrow> snd (form_input s r v)
                  = focusAndNotify
                      (updateElement (s\<lparr>scrollCalls := scrollCalls s @ [(e, ''smooth'')]\<rparr>) e
                         (\<lambda>el. el\<lparr>selectedIndex := int i\<rparr>)) e
              \<and> (\<exists>p. fst (form_input s r v) = Success p
                       \<and> new_value p = JString (selectValue (objects (snd (form_input s r v)) e)))
              \<and> (handlersKeep s e selectedIndex \<and> handlersKeep s e selectOptions \<longrightarrow>
                   selectedIndex (objects (snd (form_input s r v)) e) = int i
                   \<and> (\<exists>p. fst (form_input s r v) = Success p
                            \<and> new_value p = JString (optionValue (opts ! i)))))
       \<and> ((\<forall>opt\<in>set opts. \<not> optionMatches (toString v) opt) \<longrightarrow>
            fst (form_input s r v) = Failure ''form_input'' (optionNotFoundMessage (toString v) opts)
            \<and> (\<forall>opt\<in>set opts. stringIncludes (optionNotFoundMessage (toString v) opts) (describeOption opt))
            \<and> objects (snd (form_input s r v)) = objects s)"
proof -
  let ?s1 = "s\<lparr>scrollCalls := scrollCalls s @ [(e, ''smooth'')]\<rparr>"
  have d: "form_input s r v = selectBranch ?s1 r e v"
    using form_input_live[OF assms(1-3)] assms(4) by (simp add: dispatchOnControl_def)
  have o: "selectOptions (objects ?s1 e) = opts" using assms(5) by simp
  show ?thesis
  proof (cases "findOption opts (toString v) 0")
    case None
    then have no: "\<forall>opt\<in>set opts. \<not> optionMatches (toString v) opt" by (simp add: findOption_None)
    have "selectBranch ?s1 r e v = (Failure ''form_input'' (optionNotFoundMessage (toString v) opts), ?s1)"
      using selectBranch_missing[of ?s1 e v r] None o by simp
    then have f: "fst (form_input s r v) = Failure ''form_input'' (optionNotFoundMessage (toString v) opts)"
      and ob: "objects (snd (form_input s r v)) = objects s"
      by (simp_all add: d)
    have nom: "\<And>i. i < length opts \<Longrightarrow> \<not> optionMatches (toString v) (opts ! i)"
      using no nth_mem by blast
    have ml: "\<forall>opt\<in>set opts. stringIncludes (optionNotFoundMessage (toString v) opts) (describeOption opt)"
      using message_lists_option[of _ opts "toString v"] by blast
    show ?thesis using f ob no nom ml by simp
  next
    case (Some i)
    then have i: "i < length opts" "optionMatches (toString v) (opts ! i)"
        "\<forall>j<i. \<not> optionMatches (toString v) (opts ! j)"
      unfolding findOption_Some by simp_all
    have first: "\<And>k. k < length opts \<Longrightarrow> optionMatches (toString v) (opts ! k) \<Longrightarrow>
         (\<forall>j<k. \<not> optionMatches (toString v) (opts ! j)) \<Longrightarrow> k = i"
      using i by (metis linorder_neqE_nat)
    let ?s2 = "updateElement ?s1 e (\<lambda>el. el\<lparr>selectedIndex := int i\<rparr>)"
    let ?after = "focusAndNotify ?s2 e"
    from selectBranch_found[of ?s1 e v i r] Some o
    have st: "snd (form_input s r v) = ?after"
      and ok: "fst (form_input s r v)
       = Success \<lparr>ref = r, element_type = ''select'',
                  previous_value = JString (selectValue (objects ?s1 e)),
                  new_value = JString (selectValue (objects ?after e)),
                  message = ''Selected option '' @ [dq] @ toString v @ [dq] @ '' in dropdown''\<rparr>"
      by (simp_all add: d)
    have l2: "listeners ?s2 = listeners s" by (simp add: updateElement_def)
    have idx: "selectedIndex (objects ?after e) = int i" if "handlersKeep s e selectedIndex"
      using focusAndNotify_keeps[OF that l2, of e] by (simp add: updateElement_def)
    have ops: "selectOptions (objects ?after e) = opts" if "handlersKeep s e selectOptions"
      using focusAndNotify_keeps[OF that l2, of e] assms(5) by (simp add: updateElement_def)
    have val: "selectValue (objects ?after e) = optionValue (opts ! i)"
      if "handlersKeep s e selectedIndex" "handlersKeep s e selectOptions"
      using idx[OF that(1)] ops[OF that(2)] i(1) by (simp add: selectValue_def)
    have ex: "\<exists>opt\<in>set opts. optionMatches (toString v) opt" using i(1,2) nth_mem by blast
    show ?thesis
    proof (intro conjI allI impI)
      show "(\<exists>p. fst (form_input s r v) = Success p) \<longleftrightarrow> (\<exists>opt\<in>set opts. optionMatches (toString v) opt)"
        using ok ex by simp
    next
      fix k assume "k < length opts"
        and "optionMatches (toString v) (opts ! k) \<and> (\<forall>j<k. \<not> optionMatches (toString v) (opts ! j))"
      then have k: "k = i" using first by blast
      show "snd (form_input s r v)
              = focusAndNotify (updateElement ?s1 e (\<lambda>el. el\<lparr>selectedIndex := int k\<rparr>)) e"
        unfolding k by (rule st)
      show "\<exists>p. fst (form_input s r v) = Success p
                \<and> new_value p = JString (selectValue (objects (snd (form_input s r v)) e))"
        using ok st by simp
    next
      fix k assume "k < length opts"
        and "optionMatches (toString v) (opts ! k) \<and> (\<forall>j<k. \<not> optionMatches (toString v) (opts ! j))"
        and h: "handlersKeep s e selectedIndex \<and> handlersKeep s e selectOptions"
      then have k: "k = i" using first by blast
      show "selectedIndex (objects (snd (form_input s r v)) e) = int k"
        unfolding k st using h idx by blast
      show "\<exists>p. fst (form_input s r v) = Success p \<and> new_value p = JString (optionValue (opts ! k))"
        using ok val h k by simp
    next
      assume "\<forall>opt\<in>set opts. \<not> optionMatches (toString v) opt"
      then show "fst (form_input s r v) = Failure ''form_input'' (optionNotFoundMessage (toString v) opts)"
        using ex by blast
    next
      assume "\<forall>opt\<in>set opts. \<not> optionMatches (toString v) opt"
      then show "\<forall>opt\<in>set opts. stringIncludes (optionNotFoundMessage (toString v) opts) (describeOption opt)"
        using ex by blast
    next
      assume "\<forall>opt\<in>set opts. \<not> optionMatches (toString v) opt"
      then show "objects (snd (form_input s r v)) = objects s"
        using ex by blast
    qed
  qed
qed

theorem select_matching_witness:
  "map_of (claudeElementMap formPage) ''ref_3'' = Some 2
   \<and> 2 \<notin> collected formPage \<and> 2 \<in> inDocument formPage
   \<and> interface (objects formPage 2) = HTMLSelectElement
   \<and> handlersKeep formPage 2 selectedIndex \<and> handlersKeep formPage 2 selectOptions
   \<and> (\<exists>p. fst (form_input formPage ''ref_3'' (JString ''Blue'')) = Success p
          \<and> new_value p = JString ''b'')
   \<and> selectedIndex (objects (snd (form_input formPage ''ref_3'' (JString ''Blue''))) 2) = 0
   \<and> fst (form_input formPage ''ref_3'' (JString ''Purple''))
       = Failure ''form_input'' (optionNotFoundMessage ''Purple'' (selectOptions (objects formPage 2)))
   \<and> stringIncludes (optionNotFoundMessage ''Purple'' (selectOptions (objects formPage 2))) ''Blue''"
proof -
  let ?opts = "selectOptions (objects formPage 2)"
  have m: "map_of (claudeElementMap formPage) ''ref_3'' = Some 2" by (simp add: formPage_def emptyPage_def)
  have l: "2 \<notin> collected formPage" by (simp add: formPage_def emptyPage_def)
  have a: "2 \<in> inDocument formPage" by (simp add: formPage_def emptyPage_def)
  have i: "interface (objects formPage 2) = HTMLSelectElement" by (simp add: formPage_def emptyPage_def)
  have h1: "handlersKeep formPage 2 selectedIndex" by (simp add: handlersKeep_def formPage_def emptyPage_def)
  have h2: "handlersKeep formPage 2 selectOptions" by (simp add: handlersKeep_def formPage_def emptyPage_def)
  have o: "?opts = [\<lparr>optionValue = ''b'', optionText = ''Blue'', optionTextContent = ''Blue'',
                      selectedAttr = False\<rparr>,
                    \<lparr>optionValue = ''g'', optionText = ''Green'', optionTextContent = ''Green'',
                      selectedAttr = False\<rparr>]"
    by (simp add: formPage_def emptyPage_def plainElement_def)
  have blue: "0 < length ?opts \<and> optionMatches (toString (JString ''Blue'')) (?opts ! 0)
      \<and> (\<forall>j<0. \<not> optionMatches (toString (JString ''Blue'')) (?opts ! j))"
    by (simp add: o optionMatches_def toString_def)
  have purple: "\<forall>opt\<in>set ?opts. \<not> optionMatches (toString (JString ''Purple'')) opt"
    by (simp add: o optionMatches_def toString_def)
  have v0: "optionValue (?opts ! 0) = ''b''" by (simp add: o)
  from select_matching[OF m l a i refl, of "JString ''Blue''"] blue h1 h2
  have b0: "selectedIndex (objects (snd (form_input formPage ''ref_3'' (JString ''Blue''))) 2) = int 0
      \<and> (\<exists>p. fst (form_input formPage ''ref_3'' (JString ''Blue'')) = Success p
             \<and> new_value p = JString (optionValue (?opts ! 0)))"
    by blast
  then have b1: "\<exists>p. fst (form_input formPage ''ref_3'' (JString ''Blue'')) = Success p
          \<and> new_value p = JString ''b''"
    and b2: "selectedIndex (objects (snd (form_input formPage ''ref_3'' (JString ''Blue''))) 2) = 0"
    unfolding v0 by simp_all
  from select_matching[OF m l a i refl, of "JString ''Purple''"] purple
  have p1: "fst (form_input formPage ''ref_3'' (JString ''Purple''))
       = Failure ''form_input'' (optionNotFoundMessage ''Purple'' ?opts)"
    by (simp add: toString_def)
  have p2: "stringIncludes (optionNotFoundMessage ''Purple'' ?opts) ''Blue''" by code_simp
  show ?thesis using m l a i h1 h2 b1 b2 p1 p2 by simp
qed
subsection \<open>Failures that write nothing\<close>

lemma isNaN_not_empty_string: "isNaN (toNumber s v) \<Longrightarrow> v \<noteq> JString []"
  by (auto simp: isNaN_def toNumber_def trim_def)

lemma isNaN_toNumber_page: "isNaN (toNumber s' v) = isNaN (toNumber s v)"
  by (auto simp: isNaN_def toNumber_def Let_def split: js_value.splits)

text \<open>
  The four failures that a test of the argument or of the element ends in, for a
  reference that resolves to an element: when the element is a select and no option
  matches, or a checkbox and the argument is not a boolean, or a range or number input
  and the argument is not numeric, or an element that is no select, input or text area,
  \<open>form_input\<close> returns a failure, and no element has changed (value, checked state and
  selection are as before), \<open>focus\<close> has not been called, no event has been dispatched and
  the caret has not been moved.
\<close>

lemma validation_failure_leaves_control:
  assumes "map_of (claudeElementMap s) r = Some e" and "e \<notin> collected s" and "e \<in> inDocument s"
    and "el = objects s e"
    and "(interface el = HTMLSelectElement \<and> (\<forall>opt\<in>set (selectOptions el). \<not> optionMatches (toString v) opt))
       \<or> (interface el = HTMLInputElement \<and> typeProp el = ''checkbox'' \<and> (\<forall>b. v \<noteq> JBool b))
       \<or> (interface el = HTMLInputElement \<and> typeProp el = ''range'' \<and> isNaN (toNumber s v))
       \<or> (interface el = HTMLInputElement \<and> typeProp el = ''number'' \<and> isNaN (toNumber s v))
       \<or> interface el = OtherElement"
  shows "(\<exists>msg. fst (form_input s r v) = Failure ''form_input'' msg)
       \<and> objects (snd (form_input s r v)) = objects s
       \<and> focusCalls (snd (form_input s r v)) = focusCalls s
       \<and> dispatches (snd (form_input s r v)) = dispatches s
       \<and> caretCalls (snd (form_input s r v)) = caretCalls s"
proof -
  let ?s1 = "s\<lparr>scrollCalls := scrollCalls s @ [(e, ''smooth'')]\<rparr>"
  have d: "form_input s r v = dispatchOnControl ?s1 r e v"
    by (rule form_input_live[OF assms(1-3)])
  have el: "objects s e = el" using assms(4) by simp
  have "\<exists>msg. dispatchOnControl ?s1 r e v = (Failure ''form_input'' msg, ?s1)"
    using assms(5)
  proof (elim disjE conjE)
    assume "interface el = HTMLSelectElement" "\<forall>opt\<in>set (selectOptions el). \<not> optionMatches (toString v) opt"
    then have "findOption (selectOptions (objects ?s1 e)) (toString v) 0 = None"
      by (simp add: findOption_None el)
    from selectBranch_missing[OF this, of r] \<open>interface el = HTMLSelectElement\<close> show ?thesis
      by (simp add: dispatchOnControl_def el)
  next
    assume "interface el = HTMLInputElement" "typeProp el = ''checkbox''" "\<forall>b. v \<noteq> JBool b"
    then show ?thesis
      by (simp add: dispatchOnControl_def el checkboxBranch_def formFailure_def split: js_value.splits)
  next
    assume a: "interface el = HTMLInputElement" "typeProp el = ''range''" "isNaN (toNumber s v)"
    then have "isNaN (toNumber ?s1 v)" using isNaN_toNumber_page[of ?s1 v s] by simp
    then show ?thesis using a
      by (simp add: dispatchOnControl_def el rangeBranch_def formFailure_def Let_def)
  next
    assume a: "interface el = HTMLInputElement" "typeProp el = ''number''" "isNaN (toNumber s v)"
    then have "isNaN (toNumber ?s1 v)" using isNaN_toNumber_page[of ?s1 v s] by simp
    moreover have "v \<noteq> JString []" using a(3) by (rule isNaN_not_empty_string)
    ultimately show ?thesis using a
      by (simp add: dispatchOnControl_def el numberBranch_def formFailure_def Let_def)
  next
    assume "interface el = OtherElement"
    then show ?thesis by (simp add: dispatchOnControl_def el formFailure_def)
  qed
  then obtain msg where "form_input s r v = (Failure ''form_input'' msg, ?s1)" using d by auto
  then show ?thesis by simp
qed

text \<open>
  Claim C9. The failure of the \<open>catch\<close> clause (lines 213 to 218) is a fifth failure
  path, and the last branch reaches it after it has written: lines 185 to 190 assign the
  value, call \<open>focus()\<close> and then call \<open>setSelectionRange\<close>, which throws for an input
  whose type has no selection. With an email input, empty before the call, and the
  argument \<open>"a@b.c"\<close> the script returns a failure; the input then holds \<open>a@b.c\<close> and
  \<open>focus()\<close> has been called on it; no event has been dispatched.
\<close>

theorem email_failure_after_write:
  "map_of (claudeElementMap emailPage) ''ref_2'' = Some 1
   \<and> interface (objects emailPage 1) = HTMLInputElement
   \<and> typeProp (objects emailPage 1) = ''email''
   \<and> valueProp (objects emailPage 1) = []
   \<and> focusCalls emailPage = []
   \<and> fst (form_input emailPage ''ref_2'' (JString ''a@b.c''))
       = Failure ''form_input''
           (''Error setting form value: Failed to execute 'setSelectionRange' on 'HTMLInputElement': ''
            @ ''The input element's type ('email') does not support selection.'')
   \<and> valueProp (objects (snd (form_input emailPage ''ref_2'' (JString ''a@b.c''))) 1) = ''a@b.c''
   \<and> focusCalls (snd (form_input emailPage ''ref_2'' (JString ''a@b.c''))) = [1]
   \<and> dispatches (snd (form_input emailPage ''ref_2'' (JString ''a@b.c''))) = []"
proof -
  have m: "map_of (claudeElementMap emailPage) ''ref_2'' = Some 1" by (simp add: emailPage_def emptyPage_def)
  have i: "interface (objects emailPage 1) = HTMLInputElement" by (simp add: emailPage_def emptyPage_def)
  have t: "typeProp (objects emailPage 1) = ''email''" by (simp add: emailPage_def emptyPage_def)
  have v: "valueProp (objects emailPage 1) = []" by (simp add: emailPage_def emptyPage_def plainElement_def)
  have f: "focusCalls emailPage = []" by (simp add: emailPage_def emptyPage_def)
  have r: "fst (form_input emailPage ''ref_2'' (JString ''a@b.c''))
       = Failure ''form_input''
           (''Error setting form value: Failed to execute 'setSelectionRange' on 'HTMLInputElement': ''
            @ ''The input element's type ('email') does not support selection.'')" by code_simp
  have w: "valueProp (objects (snd (form_input emailPage ''ref_2'' (JString ''a@b.c''))) 1) = ''a@b.c''"
    by code_simp
  have c: "focusCalls (snd (form_input emailPage ''ref_2'' (JString ''a@b.c''))) = [1]" by code_simp
  have e: "dispatches (snd (form_input emailPage ''ref_2'' (JString ''a@b.c''))) = []" by code_simp
  show ?thesis using m i t v f r w c e by simp
qed
end
